theory Spec2Isabelle
  imports Main "HOL-Library.Word"
begin

unbundle bit_operations_syntax

chapter \<open>The Win32 event loop of llarp (ev\_win32.hpp)\<close>

text \<open>
  The header holds two backends.  The completion backend serves the TUN
  device: a process-wide I/O completion port (\<open>tun_event_queue\<close>), a pool of
  worker threads running \<open>tun_ev_loop\<close>, and one \<open>win32_tun_io\<close> object per
  interface.  The readiness backend (\<open>llarp_win32_loop\<close>) polls sockets through
  upoll and serves TCP and UDP.

  What the operating system, the TUN driver and the clock answer is not
  decided by the header; every such answer is an argument of the function
  that asks for it.  Calls into the system and calls of the user's hooks are
  recorded, in program order, as a list of events.  Logging and the
  formatting of error strings are left out.
\<close>

section \<open>Machine types and system constants\<close>

type_synonym byte_t = "8 word"
type_synonym HANDLE = "64 word"
type_synonym ULONG_PTR = "64 word"
type_synonym llarp_time_t = nat

text \<open>\<open>INVALID_HANDLE_VALUE\<close> is \<open>(HANDLE)-1\<close>.\<close>

definition INVALID_HANDLE_VALUE :: HANDLE where
  "INVALID_HANDLE_VALUE = - 1"

text \<open>The key \<open>~0\<close> that \<open>exit_tun_loop\<close> posts and \<open>tun_ev_loop\<close> compares
  with, as an \<open>ULONG_PTR\<close>.\<close>

definition shutdown_key :: ULONG_PTR where
  "shutdown_key = NOT 0"

text \<open>Address families and socket-address sizes as Winsock defines them.\<close>

type_synonym ADDRESS_FAMILY = "16 word"

definition AF_UNIX :: ADDRESS_FAMILY where "AF_UNIX = 1"
definition AF_INET :: ADDRESS_FAMILY where "AF_INET = 2"
definition AF_INET6 :: ADDRESS_FAMILY where "AF_INET6 = 23"

definition sizeof_sockaddr_in :: nat where "sizeof_sockaddr_in = 16"
definition sizeof_sockaddr_in6 :: nat where "sizeof_sockaddr_in6 = 28"
definition sizeof_sockaddr_un :: nat where "sizeof_sockaddr_un = 110"

record sockaddr =
  sa_family :: ADDRESS_FAMILY
  sa_data :: "byte_t list"

section \<open>The TUN endpoint: configuration\<close>

text \<open>\<open>llarp_tun_io\<close> is the caller's configuration: the interface address,
  the netmask and the hooks.  A hook is a function pointer; the model keeps
  whether it is set, and records a call of it as an event.\<close>

record llarp_tun_io =
  ifaddr :: string
  netmask :: int
  before_write :: bool
  recvpkt :: bool

text \<open>The calls \<open>win32_tun_io\<close> makes into the TUN driver library.\<close>

datatype tuntap_call =
    tuntap_init
  | tuntap_start
  | tuntap_set_ip string string int
  | tuntap_up
  | CancelIo HANDLE
  | tuntap_destroy

text \<open>What the driver answers during \<open>setup\<close>: the three return codes, and
  the descriptor \<open>tunif->tun_fd\<close> the device holds when \<open>setup\<close> looks at it.\<close>

record tuntap_answers =
  start_res :: int
  set_ip_res :: int
  up_res :: int
  tun_fd_res :: HANDLE

text \<open>\<open>win32_tun_io::setup\<close>: the result, and the driver calls made.\<close>

definition win32_tun_io_setup :: "tuntap_answers \<Rightarrow> llarp_tun_io \<Rightarrow> bool \<times> tuntap_call list" where
  "win32_tun_io_setup drv tio =
     (if start_res drv = - 1 then (False, [tuntap_start])
      else if set_ip_res drv = - 1
        then (False, [tuntap_start, tuntap_set_ip (ifaddr tio) (ifaddr tio) (netmask tio)])
      else if up_res drv = - 1
        then (False, [tuntap_start, tuntap_set_ip (ifaddr tio) (ifaddr tio) (netmask tio),
                      tuntap_up])
      else if tun_fd_res drv = INVALID_HANDLE_VALUE
        then (False, [tuntap_start, tuntap_set_ip (ifaddr tio) (ifaddr tio) (netmask tio),
                      tuntap_up])
      else (True, [tuntap_start, tuntap_set_ip (ifaddr tio) (ifaddr tio) (netmask tio),
                   tuntap_up]))"

section \<open>The readiness backend: UDP\<close>

text \<open>The socket calls of the readiness backend, with their arguments.\<close>

datatype sock_call =
    sys_usocket ADDRESS_FAMILY
  | sys_upoll_ctl_add int bool
  | sys_connect int sockaddr nat
  | sys_sendto int "byte_t list" nat sockaddr nat

text \<open>The \<open>switch\<close> on the address family at the head of
  \<open>udp_listener::sendto\<close> and of \<open>udp_bind\<close>; \<open>None\<close> is the \<open>default\<close> branch.\<close>

definition udp_slen :: "ADDRESS_FAMILY \<Rightarrow> nat option" where
  "udp_slen fam =
     (if fam = AF_INET then Some sizeof_sockaddr_in
      else if fam = AF_INET6 then Some sizeof_sockaddr_in6
      else None)"

text \<open>\<open>udp_listener::sendto\<close> on the socket \<open>sock\<close>.  \<open>sent\<close> is what the
  system's \<open>sendto\<close> answers, if it is asked.\<close>

definition udp_listener_sendto ::
  "int \<Rightarrow> int \<Rightarrow> sockaddr \<Rightarrow> byte_t list \<Rightarrow> nat \<Rightarrow> int \<times> sock_call list" where
  "udp_listener_sendto sent sock to dat n =
     (case udp_slen (sa_family to) of
        None \<Rightarrow> (- 1, [])
      | Some slen \<Rightarrow> (sent, [sys_sendto sock dat n to slen]))"

section \<open>The completion backend: the write pacing queue\<close>

text \<open>Faults of the C++ program that the model keeps as values.\<close>

datatype fault = NullDeref | UseAfterFree | BadArrayLength

text \<open>
  Two constants of \<open>ev.hpp\<close> and the Controlled-Delay verdict of
  \<open>CoDelQueue\<close> are not in this header.  They are arguments of the model:
  \<open>EV_WRITE_BUF_SZ\<close> is \<open>sizeof(WriteBuffer::buf)\<close>, \<open>EV_READ_BUF_SZ\<close> is
  \<open>sizeof(readbuf)\<close>, and \<open>codel_drop c now b\<close> says whether the discipline,
  in state \<open>c\<close> at time \<open>now\<close>, drops the entry \<open>b\<close>, and gives its next
  state.
\<close>

record WriteBuffer =
  timestamp :: llarp_time_t
  bufsz :: nat
  buf :: "byte_t list"

record 'c platform =
  EV_READ_BUF_SZ :: nat
  EV_WRITE_BUF_SZ :: nat
  codel_drop :: "'c \<Rightarrow> llarp_time_t \<Rightarrow> WriteBuffer \<Rightarrow> bool \<times> 'c"

text \<open>\<open>WriteBuffer(ptr, sz)\<close>.  The pointer and the size are the byte list
  \<open>dat\<close>; \<open>cap\<close> is \<open>sizeof(buf)\<close>.  The field \<open>buf\<close> of the model holds the
  first \<open>bufsz\<close> bytes of the array, the ones the constructor wrote.\<close>

definition WriteBuffer_ctor :: "nat \<Rightarrow> byte_t list \<Rightarrow> WriteBuffer" where
  "WriteBuffer_ctor cap dat =
     (if length dat \<le> cap
      then \<lparr>timestamp = 0, bufsz = length dat, buf = dat\<rparr>
      else \<lparr>timestamp = 0, bufsz = 0, buf = []\<rparr>)"

text \<open>\<open>WriteBuffer::PutTime\<close>; \<open>now\<close> is what \<open>llarp::time_now_ms()\<close> answers.\<close>

definition PutTime :: "llarp_time_t \<Rightarrow> WriteBuffer \<Rightarrow> WriteBuffer" where
  "PutTime now b = b\<lparr>timestamp := now\<rparr>"

text \<open>\<open>LossyWriteQueue_t\<close> is \<open>CoDelQueue<WriteBuffer, ..., 5, 100, 128>\<close>: the
  queued entries in the order they were put, and the state of the
  discipline.\<close>

record 'c CoDelQueue =
  m_Queue :: "WriteBuffer list"
  codel :: 'c

definition MaxSize :: nat where
  "MaxSize = 128"

text \<open>
  Modelled from the spec: \<open>CoDelQueue::Emplace\<close> is defined in
  \<open>util/codel.hpp\<close>, which is not among the sources.  The spec: ``\<open>push(data)\<close>
  enqueues a copy of \<open>data\<close> tagged with the current time'', and ``capacity is
  bounded (e.g. 128 entries) ... entries exceeding capacity are dropped''.
  The call \<open>Emplace(buf, sz)\<close> of \<open>queue_write\<close> hands its arguments to the
  constructor \<open>WriteBuffer(ptr, sz)\<close> of this header, which builds the entry
  whatever the size of the payload, and \<open>PutTime\<close> of this header stamps it;
  the queue has no say on the payload.
\<close>

definition Emplace ::
  "'c platform \<Rightarrow> llarp_time_t \<Rightarrow> byte_t list \<Rightarrow> 'c CoDelQueue \<Rightarrow> 'c CoDelQueue" where
  "Emplace pf now dat q =
     (if MaxSize \<le> length (m_Queue q) then q
      else q\<lparr>m_Queue := m_Queue q @ [PutTime now (WriteBuffer_ctor (EV_WRITE_BUF_SZ pf) dat)]\<rparr>)"

text \<open>
  Modelled from the spec: \<open>CoDelQueue::Process\<close> is defined in
  \<open>util/codel.hpp\<close>, which is not among the sources.  The spec: ``\<open>drain(sink)\<close>
  ... walks queued entries oldest-first and, for each, applies the
  Controlled-Delay decision before handing it to \<open>sink\<close>''.  \<open>codel_walk\<close>
  returns the entries handed to the sink, in order, and the state of the
  discipline after the walk; \<open>Process\<close> leaves the queue empty.
\<close>

fun codel_walk ::
  "('c \<Rightarrow> llarp_time_t \<Rightarrow> WriteBuffer \<Rightarrow> bool \<times> 'c) \<Rightarrow> llarp_time_t \<Rightarrow> 'c \<Rightarrow>
     WriteBuffer list \<Rightarrow> WriteBuffer list \<times> 'c" where
  "codel_walk d now c [] = ([], c)"
| "codel_walk d now c (b # bs) =
     (case d c now b of (dropped, c') \<Rightarrow>
        (case codel_walk d now c' bs of (out, c'') \<Rightarrow>
           (if dropped then out else b # out, c'')))"

definition Process ::
  "'c platform \<Rightarrow> llarp_time_t \<Rightarrow> 'c CoDelQueue \<Rightarrow> WriteBuffer list \<times> 'c CoDelQueue" where
  "Process pf now q =
     (case codel_walk (codel_drop pf) now (codel q) (sort_key timestamp (m_Queue q)) of
        (out, c') \<Rightarrow> (out, \<lparr>m_Queue = [], codel = c'\<rparr>))"

section \<open>The completion backend: state\<close>

text \<open>\<open>asio_evt_pkt\<close>, the record of one request in flight.  \<open>OVERLAPPED\<close> is
  its first member, so the address of the record is the \<open>OVERLAPPED*\<close> the
  system hands back.  \<open>buf\<close> points at the read buffer of an endpoint, or at
  the bytes of a queued entry.\<close>

datatype buf_ptr = readbuf_of ULONG_PTR | queued_bytes "byte_t list"

record asio_evt_pkt =
  "write" :: bool
  sz :: nat
  buf :: buf_ptr

text \<open>\<open>win32_tun_io\<close>: the configuration \<open>t\<close>, the descriptor \<open>tunif->tun_fd\<close>
  and the queue behind \<open>m_LossyWriteQueue\<close> (\<open>None\<close> is the null pointer).\<close>

record 'c win32_tun_io =
  tio :: llarp_tun_io
  tun_fd :: HANDLE
  m_LossyWriteQueue :: "'c CoDelQueue option"

text \<open>The constructor: \<open>fd0\<close> is the descriptor of the device that
  \<open>tuntap_init\<close> returns, \<open>c0\<close> the initial state of the discipline.\<close>

definition win32_tun_io_ctor :: "llarp_tun_io \<Rightarrow> HANDLE \<Rightarrow> 'c \<Rightarrow> 'c win32_tun_io" where
  "win32_tun_io_ctor cfg fd0 c0 =
     \<lparr>tio = cfg, tun_fd = fd0, m_LossyWriteQueue = Some \<lparr>m_Queue = [], codel = c0\<rparr>\<rparr>"

datatype thread = Running | Exited

text \<open>What the program does to the world, in program order.\<close>

datatype tun_event =
    hook_before_write ULONG_PTR
  | hook_recvpkt ULONG_PTR buf_ptr nat
  | WriteFile HANDLE "byte_t list" nat nat
  | ReadFile HANDLE nat nat
  | delete_pkt nat
  | CreateIoCompletionPort HANDLE "HANDLE option" ULONG_PTR "32 word"
  | CreateThread nat
  | PostQueuedCompletionStatus nat ULONG_PTR
  | thread_exit nat
  | WaitForMultipleObjects nat
  | CloseHandle_thread nat
  | driver tuntap_call
  | delete_listener ULONG_PTR
  | CloseHandle_queue HANDLE

text \<open>
  The globals of the header and the memory they reach.
  \<^item> \<open>tun_listeners\<close>, \<open>tun_event_queue\<close>, \<open>kThreadPool\<close>: the three globals.  The
    array \<open>kThreadPool\<close> is kept as the list of the threads whose handles it
    holds, each with whether it still runs.
  \<^item> \<open>objs\<close>: the live \<open>win32_tun_io\<close> objects by address.
  \<^item> \<open>pkts\<close>: the \<open>asio_evt_pkt\<close> records allocated and not yet deleted, each
    with its address and the descriptor it was issued on.  \<open>next_pkt\<close> is the
    address the next \<open>new\<close> returns; an address is never handed out twice.
  \<^item> \<open>port_queue\<close>: the completion packets queued on the port, oldest first,
    each \<open>(size, key, overlapped)\<close>.
  \<^item> \<open>trace\<close>: the events so far.
\<close>

record 'c tun_state =
  tun_listeners :: "ULONG_PTR list"
  tun_event_queue :: HANDLE
  kThreadPool :: "thread list"
  objs :: "ULONG_PTR \<rightharpoonup> 'c win32_tun_io"
  pkts :: "(nat \<times> HANDLE \<times> asio_evt_pkt) list"
  next_pkt :: nat
  port_queue :: "(nat \<times> ULONG_PTR \<times> nat option) list"
  trace :: "tun_event list"

definition init_state :: "'c tun_state" where
  "init_state =
     \<lparr>tun_listeners = [], tun_event_queue = INVALID_HANDLE_VALUE, kThreadPool = [],
      objs = Map.empty, pkts = [], next_pkt = 0, port_queue = [], trace = []\<rparr>"

definition emit :: "tun_event \<Rightarrow> 'c tun_state \<Rightarrow> 'c tun_state" where
  "emit e s = s\<lparr>trace := trace s @ [e]\<rparr>"

text \<open>\<open>new asio_evt_pkt\<close>, filled in, for a request on the descriptor \<open>h\<close>.\<close>

definition new_pkt :: "HANDLE \<Rightarrow> asio_evt_pkt \<Rightarrow> 'c tun_state \<Rightarrow> 'c tun_state" where
  "new_pkt h p s = s\<lparr>pkts := pkts s @ [(next_pkt s, h, p)], next_pkt := Suc (next_pkt s)\<rparr>"

text \<open>\<open>delete pkt\<close>.\<close>

definition free_pkt :: "nat \<Rightarrow> 'c tun_state \<Rightarrow> 'c tun_state" where
  "free_pkt a s = emit (delete_pkt a) (s\<lparr>pkts := filter (\<lambda>e. fst e \<noteq> a) (pkts s)\<rparr>)"

section \<open>The completion backend: the endpoint's operations\<close>

text \<open>\<open>win32_tun_io::do_write\<close>.\<close>

definition do_write :: "'c win32_tun_io \<Rightarrow> byte_t list \<Rightarrow> nat \<Rightarrow> 'c tun_state \<Rightarrow> 'c tun_state" where
  "do_write ev dat n s =
     emit (WriteFile (tun_fd ev) dat n (next_pkt s))
       (new_pkt (tun_fd ev) \<lparr>write = True, sz = n, buf = queued_bytes dat\<rparr> s)"

text \<open>\<open>win32_tun_io::read\<close> on the object at address \<open>this\<close>, into its
  \<open>readbuf\<close>.\<close>

definition win32_tun_io_read ::
  "ULONG_PTR \<Rightarrow> 'c win32_tun_io \<Rightarrow> nat \<Rightarrow> 'c tun_state \<Rightarrow> 'c tun_state" where
  "win32_tun_io_read this ev n s =
     emit (ReadFile (tun_fd ev) n (next_pkt s))
       (new_pkt (tun_fd ev) \<lparr>write = False, sz = n, buf = readbuf_of this\<rparr> s)"

text \<open>\<open>win32_tun_io::flush_write\<close>: the hook, then \<open>Process\<close> with \<open>do_write\<close>
  as the sink.  The queue pointer is dereferenced unchecked.\<close>

definition flush_write ::
  "'c platform \<Rightarrow> llarp_time_t \<Rightarrow> ULONG_PTR \<Rightarrow> 'c tun_state \<Rightarrow> fault + 'c tun_state" where
  "flush_write pf now this s =
     (case objs s this of
        None \<Rightarrow> Inl UseAfterFree
      | Some ev \<Rightarrow>
          let s1 = (if before_write (tio ev) then emit (hook_before_write this) s else s) in
          (case m_LossyWriteQueue ev of
             None \<Rightarrow> Inl NullDeref
           | Some q \<Rightarrow>
               (case Process pf now q of
                  (out, q') \<Rightarrow>
                    Inr (fold (\<lambda>b. do_write ev (WriteBuffer.buf b) (bufsz b)) out
                          (s1\<lparr>objs := (objs s1)(this \<mapsto> ev\<lparr>m_LossyWriteQueue := Some q'\<rparr>)\<rparr>)))))"

text \<open>\<open>win32_tun_io::queue_write\<close>.\<close>

definition queue_write ::
  "'c platform \<Rightarrow> llarp_time_t \<Rightarrow> ULONG_PTR \<Rightarrow> byte_t list \<Rightarrow> 'c tun_state \<Rightarrow>
     fault + (bool \<times> 'c tun_state)" where
  "queue_write pf now this dat s =
     (case objs s this of
        None \<Rightarrow> Inl UseAfterFree
      | Some ev \<Rightarrow>
          (case m_LossyWriteQueue ev of
             Some q \<Rightarrow>
               (case flush_write pf now this
                       (s\<lparr>objs := (objs s)(this \<mapsto>
                            ev\<lparr>m_LossyWriteQueue := Some (Emplace pf now dat q)\<rparr>)\<rparr>) of
                  Inl f \<Rightarrow> Inl f
                | Inr s' \<Rightarrow> Inr (True, s'))
           | None \<Rightarrow> Inr (False, s)))"

text \<open>\<open>begin_tun_loop\<close>.  \<open>new HANDLE[nThreads]\<close> throws on a negative length;
  \<open>CreateThread\<close> is taken to succeed.\<close>

function spawn :: "int \<Rightarrow> int \<Rightarrow> 'c tun_state \<Rightarrow> 'c tun_state" where
  "spawn i nThreads s =
     (if i < nThreads
      then spawn (i + 1) nThreads
             (emit (CreateThread (nat i)) (s\<lparr>kThreadPool := kThreadPool s @ [Running]\<rparr>))
      else s)"
  by pat_completeness auto
termination
  by (relation "measure (\<lambda>(i, nThreads, s). nat (nThreads - i))") auto

definition begin_tun_loop :: "int \<Rightarrow> 'c tun_state \<Rightarrow> fault + 'c tun_state" where
  "begin_tun_loop nThreads s =
     (if nThreads < 0 then Inl BadArrayLength
      else Inr (spawn 0 nThreads (s\<lparr>kThreadPool := []\<rparr>)))"

text \<open>\<open>win32_tun_io::add_ev\<close> on the object at \<open>this\<close>.  \<open>numCPU\<close> is
  \<open>sys_info.dwNumberOfProcessors\<close> (an \<open>unsigned long\<close>, 32 bits wide on
  Windows, so \<open>numCPU * 2\<close> wraps, and \<open>begin_tun_loop\<close> reads it as an
  \<open>int\<close>); \<open>port\<close> is what \<open>CreateIoCompletionPort\<close> answers when it is asked
  for a new port.\<close>

definition add_ev ::
  "ULONG_PTR \<Rightarrow> 32 word \<Rightarrow> HANDLE \<Rightarrow> 'c tun_state \<Rightarrow> fault + (bool \<times> 'c tun_state)" where
  "add_ev this numCPU port s =
     (case objs s this of
        None \<Rightarrow> Inl UseAfterFree
      | Some ev \<Rightarrow>
          (case (if tun_event_queue s = INVALID_HANDLE_VALUE
                 then begin_tun_loop (sint (numCPU * 2))
                        (emit (CreateIoCompletionPort (tun_fd ev) None this (numCPU * 2))
                           (s\<lparr>tun_event_queue := port\<rparr>))
                 else Inr (emit (CreateIoCompletionPort (tun_fd ev) (Some (tun_event_queue s))
                                   this 0) s)) of
             Inl f \<Rightarrow> Inl f
           | Inr s1 \<Rightarrow>
               Inr (True,
                 win32_tun_io_read this ev 4096
                   (s1\<lparr>tun_listeners := tun_listeners s1 @ [this]\<rparr>))))"

text \<open>The destructor \<open>~win32_tun_io\<close>.\<close>

definition win32_tun_io_dtor :: "ULONG_PTR \<Rightarrow> 'c tun_state \<Rightarrow> fault + 'c tun_state" where
  "win32_tun_io_dtor this s =
     (case objs s this of
        None \<Rightarrow> Inl UseAfterFree
      | Some ev \<Rightarrow>
          let s1 = emit (driver (CancelIo (tun_fd ev))) s;
              s2 = (if tun_fd ev \<noteq> 0 then emit (driver tuntap_destroy) s1 else s1)
          in Inr (emit (delete_listener this) (s2\<lparr>objs := (objs s2)(this := None)\<rparr>)))"

section \<open>The completion backend: the worker loop\<close>

text \<open>
  One pass through the body of the \<open>while(true)\<close> of \<open>tun_ev_loop\<close>.  \<open>r\<close> is
  what \<open>GetQueuedCompletionStatus\<close> answered: \<open>None\<close> when it returned
  \<open>FALSE\<close>, else the size, the key and the \<open>OVERLAPPED\<close> pointer.  The
  boolean of the result says whether the pass left the loop by \<open>break\<close>.
\<close>

definition tun_ev_body ::
  "'c platform \<Rightarrow> llarp_time_t \<Rightarrow> (nat \<times> ULONG_PTR \<times> nat option) option \<Rightarrow> 'c tun_state \<Rightarrow>
     fault + (bool \<times> 'c tun_state)" where
  "tun_ev_body pf now r s =
     (case r of
        None \<Rightarrow> Inr (False, s)
      | Some (nbytes, listener, ovl) \<Rightarrow>
          if listener = shutdown_key then Inr (True, s)
          else
            (case ovl of
               None \<Rightarrow> Inl NullDeref
             | Some a \<Rightarrow>
                 (case map_of (pkts s) a of
                    None \<Rightarrow> Inl UseAfterFree
                  | Some (h, pkt) \<Rightarrow>
                      (case objs s listener of
                         None \<Rightarrow> Inl UseAfterFree
                       | Some ev \<Rightarrow>
                           if \<not> write pkt then
                             (case flush_write pf now listener
                                     (if recvpkt (tio ev)
                                      then emit (hook_recvpkt listener (asio_evt_pkt.buf pkt) nbytes) s
                                      else s) of
                                Inl f \<Rightarrow> Inl f
                              | Inr s2 \<Rightarrow>
                                  Inr (False,
                                    free_pkt a
                                      (win32_tun_io_read listener ev (EV_READ_BUF_SZ pf) s2)))
                           else
                             Inr (False,
                               free_pkt a
                                 (win32_tun_io_read listener ev (EV_READ_BUF_SZ pf) s))))))"

text \<open>
  The pool.  \<open>wake pf j now s\<close>: thread \<open>j\<close> of the pool, if it still runs,
  returns from \<open>GetQueuedCompletionStatus\<close> at time \<open>now\<close>, with the oldest
  packet queued on the port if there is one and with \<open>FALSE\<close> if there is
  none, and makes one pass through the body.  A packet is handed to one
  thread only.  The passes of different threads are interleaved whole.
\<close>

definition wake :: "'c platform \<Rightarrow> nat \<Rightarrow> llarp_time_t \<Rightarrow> 'c tun_state \<Rightarrow> fault + 'c tun_state" where
  "wake pf j now s =
     (if j < length (kThreadPool s) \<and> kThreadPool s ! j = Running then
        (case (case port_queue s of
                 [] \<Rightarrow> tun_ev_body pf now None s
               | c # cs \<Rightarrow> tun_ev_body pf now (Some c) (s\<lparr>port_queue := cs\<rparr>)) of
           Inl f \<Rightarrow> Inl f
         | Inr (left, s') \<Rightarrow>
             if left
             then Inr (emit (thread_exit j) (s'\<lparr>kThreadPool := (kThreadPool s')[j := Exited]\<rparr>))
             else Inr s')
      else Inr s)"

fun run_pool ::
  "'c platform \<Rightarrow> (nat \<times> llarp_time_t) list \<Rightarrow> 'c tun_state \<Rightarrow> fault + 'c tun_state" where
  "run_pool pf [] s = Inr s"
| "run_pool pf ((j, now) # sched) s =
     (case wake pf j now s of Inl f \<Rightarrow> Inl f | Inr s' \<Rightarrow> run_pool pf sched s')"

section \<open>The completion backend: shutdown\<close>

text \<open>The loop over \<open>tun_listeners\<close> at the end of \<open>exit_tun_loop\<close>.\<close>

fun release_listeners :: "ULONG_PTR list \<Rightarrow> 'c tun_state \<Rightarrow> fault + 'c tun_state" where
  "release_listeners [] s = Inr s"
| "release_listeners (k # ks) s =
     (case win32_tun_io_dtor k s of
        Inl f \<Rightarrow> Inl f
      | Inr s' \<Rightarrow> release_listeners ks (s'\<lparr>tun_listeners := ks\<rparr>))"

datatype 'a outcome = Crashed fault | Blocked | Returned 'a

text \<open>
  \<open>exit_tun_loop\<close>.  It posts one packet with the key \<open>~0\<close>, waits with
  \<open>WaitForMultipleObjects(i, kThreadPool, TRUE, INFINITE)\<close> until the first
  \<open>i\<close> threads of the pool have all ended, closes their handles, destroys
  every listener and closes the port.

  \<open>i\<close> is the value of \<open>(&kThreadPool)[1] - kThreadPool\<close>.  The expression
  reads the word stored behind the global \<open>kThreadPool\<close>, which the header
  does not determine, so \<open>i\<close> is an argument.  \<open>sched\<close> is what the threads of
  the pool do between the post and the return of the wait; \<open>Blocked\<close> says
  that after \<open>sched\<close> the wait has not returned.
\<close>

definition exit_tun_loop ::
  "'c platform \<Rightarrow> nat \<Rightarrow> (nat \<times> llarp_time_t) list \<Rightarrow> 'c tun_state \<Rightarrow> 'c tun_state outcome" where
  "exit_tun_loop pf i sched s =
     (case run_pool pf sched
             (emit (PostQueuedCompletionStatus 0 shutdown_key)
                (s\<lparr>port_queue := port_queue s @ [(0, shutdown_key, None)]\<rparr>)) of
        Inl f \<Rightarrow> Crashed f
      | Inr s2 \<Rightarrow>
          if list_all (\<lambda>t. t = Exited) (take i (kThreadPool s2)) then
            (let s3 = fold (\<lambda>j. emit (CloseHandle_thread j)) [0..<i]
                        (emit (WaitForMultipleObjects i) s2)
             in case release_listeners (tun_listeners s3) s3 of
                  Inl f \<Rightarrow> Crashed f
                | Inr s4 \<Rightarrow> Returned (emit (CloseHandle_queue (tun_event_queue s4)) s4))
          else Blocked)"

text \<open>The reads in flight on a descriptor: the read records issued on it
  and not yet deleted.\<close>

definition outstanding_reads :: "'c tun_state \<Rightarrow> HANDLE \<Rightarrow> nat" where
  "outstanding_reads s h =
     length (filter (\<lambda>e. fst (snd e) = h \<and> \<not> write (snd (snd e))) (pkts s))"

definition is_ReadFile :: "tun_event \<Rightarrow> bool" where
  "is_ReadFile e = (case e of ReadFile h n a \<Rightarrow> True | _ \<Rightarrow> False)"

definition is_CreateThread :: "tun_event \<Rightarrow> bool" where
  "is_CreateThread e = (case e of CreateThread j \<Rightarrow> True | _ \<Rightarrow> False)"

definition is_delete_pkt :: "tun_event \<Rightarrow> bool" where
  "is_delete_pkt e = (case e of delete_pkt a \<Rightarrow> True | _ \<Rightarrow> False)"

text \<open>The calls a running node makes on the completion backend, for
  statements about everything that happens after a point.\<close>

datatype tun_op =
    op_add_ev ULONG_PTR "32 word" HANDLE
  | op_queue_write llarp_time_t ULONG_PTR "byte_t list"
  | op_wake nat llarp_time_t

fun apply_op :: "'c platform \<Rightarrow> tun_op \<Rightarrow> 'c tun_state \<Rightarrow> fault + 'c tun_state" where
  "apply_op pf (op_add_ev this numCPU port) s =
     (case add_ev this numCPU port s of Inl f \<Rightarrow> Inl f | Inr (ok, s') \<Rightarrow> Inr s')"
| "apply_op pf (op_queue_write now this dat) s =
     (case queue_write pf now this dat s of Inl f \<Rightarrow> Inl f | Inr (ok, s') \<Rightarrow> Inr s')"
| "apply_op pf (op_wake j now) s = wake pf j now s"

fun run_ops :: "'c platform \<Rightarrow> tun_op list \<Rightarrow> 'c tun_state \<Rightarrow> fault + 'c tun_state" where
  "run_ops pf [] s = Inr s"
| "run_ops pf (x # xs) s =
     (case apply_op pf x s of Inl f \<Rightarrow> Inl f | Inr s' \<Rightarrow> run_ops pf xs s')"

section \<open>Derived notions used in the statements\<close>

text \<open>The sink of a drain: every entry handed over becomes one write.\<close>

definition do_writes :: "'c win32_tun_io \<Rightarrow> WriteBuffer list \<Rightarrow> 'c tun_state \<Rightarrow> 'c tun_state" where
  "do_writes ev out s = fold (\<lambda>b. do_write ev (WriteBuffer.buf b) (bufsz b)) out s"

fun write_events :: "HANDLE \<Rightarrow> nat \<Rightarrow> WriteBuffer list \<Rightarrow> tun_event list" where
  "write_events h a [] = []"
| "write_events h a (b # bs) =
     WriteFile h (WriteBuffer.buf b) (bufsz b) a # write_events h (Suc a) bs"

fun write_pkts :: "HANDLE \<Rightarrow> nat \<Rightarrow> WriteBuffer list \<Rightarrow> (nat \<times> HANDLE \<times> asio_evt_pkt) list" where
  "write_pkts h a [] = []"
| "write_pkts h a (b # bs) =
     (a, h, \<lparr>write = True, sz = bufsz b, buf = queued_bytes (WriteBuffer.buf b)\<rparr>)
       # write_pkts h (Suc a) bs"

text \<open>The state a drain leaves.\<close>

definition drained ::
  "'c platform \<Rightarrow> llarp_time_t \<Rightarrow> ULONG_PTR \<Rightarrow> 'c win32_tun_io \<Rightarrow> 'c CoDelQueue \<Rightarrow>
     'c tun_state \<Rightarrow> 'c tun_state" where
  "drained pf now this ev q s =
     do_writes ev (fst (Process pf now q))
       ((if before_write (tio ev) then emit (hook_before_write this) s else s)
          \<lparr>objs := (objs s)(this \<mapsto> ev\<lparr>m_LossyWriteQueue := Some (snd (Process pf now q))\<rparr>)\<rparr>)"

text \<open>The state a pass of the worker leaves after a completion.\<close>

definition after_completion ::
  "'c platform \<Rightarrow> ULONG_PTR \<Rightarrow> 'c win32_tun_io \<Rightarrow> nat \<Rightarrow> 'c tun_state \<Rightarrow> 'c tun_state" where
  "after_completion pf this ev a s =
     free_pkt a (win32_tun_io_read this ev (EV_READ_BUF_SZ pf) s)"

definition recv_hooked :: "ULONG_PTR \<Rightarrow> 'c win32_tun_io \<Rightarrow> asio_evt_pkt \<Rightarrow> nat \<Rightarrow>
    'c tun_state \<Rightarrow> 'c tun_state" where
  "recv_hooked this ev pkt n s =
     (if recvpkt (tio ev) then emit (hook_recvpkt this (asio_evt_pkt.buf pkt) n) s else s)"

text \<open>The events between two states of one run.\<close>

definition new_events :: "'c tun_state \<Rightarrow> 'c tun_state \<Rightarrow> tun_event list" where
  "new_events s s' = drop (length (trace s)) (trace s')"

text \<open>The pool is kept: same port, same number of threads, no thread created.\<close>

definition pool_kept :: "'c tun_state \<Rightarrow> 'c tun_state \<Rightarrow> bool" where
  "pool_kept s s' \<longleftrightarrow>
     tun_event_queue s' = tun_event_queue s
     \<and> length (kThreadPool s') = length (kThreadPool s)
     \<and> trace s' = trace s @ new_events s s'
     \<and> filter is_CreateThread (new_events s s') = []"

text \<open>A run on a machine with one processor: one interface, configured with both hooks,
  at address 4096 with descriptor 5; the port the system hands out is 9.\<close>

definition ex_pf :: "unit platform" where
  "ex_pf = \<lparr>EV_READ_BUF_SZ = 4096, EV_WRITE_BUF_SZ = 2048,
            codel_drop = (\<lambda>c now b. (False, c))\<rparr>"

definition ex_cfg :: llarp_tun_io where
  "ex_cfg = \<lparr>ifaddr = ''10.0.0.1'', netmask = 24, before_write = True, recvpkt = True\<rparr>"

definition ex_ev :: "unit win32_tun_io" where
  "ex_ev = \<lparr>tio = ex_cfg, tun_fd = 5, m_LossyWriteQueue = Some \<lparr>m_Queue = [], codel = ()\<rparr>\<rparr>"

definition ex_s0 :: "unit tun_state" where
  "ex_s0 =
     \<lparr>tun_listeners = [], tun_event_queue = INVALID_HANDLE_VALUE, kThreadPool = [],
      objs = [4096 \<mapsto> ex_ev], pkts = [], next_pkt = 0, port_queue = [], trace = []\<rparr>"

definition ex_s1 :: "unit tun_state" where
  "ex_s1 =
     \<lparr>tun_listeners = [4096], tun_event_queue = 9, kThreadPool = [Running, Running],
      objs = [4096 \<mapsto> ex_ev],
      pkts = [(0, 5, \<lparr>write = False, sz = 4096, buf = readbuf_of 4096\<rparr>)],
      next_pkt = 1, port_queue = [],
      trace = [CreateIoCompletionPort 5 None 4096 2, CreateThread 0, CreateThread 1,
               ReadFile 5 4096 0]\<rparr>"

definition ex_s2 :: "unit tun_state" where
  "ex_s2 =
     \<lparr>tun_listeners = [4096], tun_event_queue = 9, kThreadPool = [Running, Running],
      objs = [4096 \<mapsto> ex_ev],
      pkts = [(0, 5, \<lparr>write = False, sz = 4096, buf = readbuf_of 4096\<rparr>),
              (1, 5, \<lparr>write = True, sz = 3, buf = queued_bytes [1, 2, 3]\<rparr>)],
      next_pkt = 2, port_queue = [],
      trace = [CreateIoCompletionPort 5 None 4096 2, CreateThread 0, CreateThread 1,
               ReadFile 5 4096 0, hook_before_write 4096, WriteFile 5 [1, 2, 3] 3 1]\<rparr>"

definition ex_s3 :: "unit tun_state" where
  "ex_s3 =
     \<lparr>tun_listeners = [4096], tun_event_queue = 9, kThreadPool = [Running, Running],
      objs = [4096 \<mapsto> ex_ev],
      pkts = [(0, 5, \<lparr>write = False, sz = 4096, buf = readbuf_of 4096\<rparr>),
              (2, 5, \<lparr>write = False, sz = 4096, buf = readbuf_of 4096\<rparr>)],
      next_pkt = 3, port_queue = [],
      trace = [CreateIoCompletionPort 5 None 4096 2, CreateThread 0, CreateThread 1,
               ReadFile 5 4096 0, hook_before_write 4096, WriteFile 5 [1, 2, 3] 3 1,
               ReadFile 5 4096 2, delete_pkt 1]\<rparr>"

text \<open>Every live endpoint's queue, if it has one, holds no entry.\<close>

definition queues_empty :: "'c tun_state \<Rightarrow> bool" where
  "queues_empty s \<longleftrightarrow>
     (\<forall>k ev q. objs s k = Some ev \<longrightarrow> m_LossyWriteQueue ev = Some q \<longrightarrow> m_Queue q = [])"

text \<open>The run of the example continued with a payload of 2049 bytes, one more than an
  entry holds.\<close>

definition ex_s2_oversize :: "unit tun_state" where
  "ex_s2_oversize =
     \<lparr>tun_listeners = [4096], tun_event_queue = 9, kThreadPool = [Running, Running],
      objs = [4096 \<mapsto> ex_ev],
      pkts = [(0, 5, \<lparr>write = False, sz = 4096, buf = readbuf_of 4096\<rparr>),
              (1, 5, \<lparr>write = True, sz = 0, buf = queued_bytes []\<rparr>)],
      next_pkt = 2, port_queue = [],
      trace = [CreateIoCompletionPort 5 None 4096 2, CreateThread 0, CreateThread 1,
               ReadFile 5 4096 0, hook_before_write 4096, WriteFile 5 [] 0 1]\<rparr>"

text \<open>An address that was handed out and whose record is gone.\<close>

definition dead :: "nat \<Rightarrow> 'c tun_state \<Rightarrow> bool" where
  "dead a s \<longleftrightarrow> a < next_pkt s \<and> a \<notin> fst ` set (pkts s)"

text \<open>From \<open>s\<close> to \<open>s'\<close> the record at \<open>a\<close> stays gone and is not deleted again.\<close>

definition stays_deleted :: "nat \<Rightarrow> 'c tun_state \<Rightarrow> 'c tun_state \<Rightarrow> bool" where
  "stays_deleted a s s' \<longleftrightarrow>
     dead a s' \<and> trace s' = trace s @ new_events s s' \<and> delete_pkt a \<notin> set (new_events s s')"

text \<open>The allocator's invariant: the addresses of the live records are distinct and
  below the next address.\<close>

definition pkts_ok :: "'c tun_state \<Rightarrow> bool" where
  "pkts_ok s \<longleftrightarrow>
     distinct (map fst (pkts s)) \<and> list_all (\<lambda>e. fst e < next_pkt s) (pkts s)"

text \<open>The threads of a pool that have ended, and the shutdown packets queued on a port.\<close>

definition exited :: "thread list \<Rightarrow> nat" where
  "exited ts = length (filter (\<lambda>t. t = Exited) ts)"

definition sentinels :: "(nat \<times> ULONG_PTR \<times> nat option) list \<Rightarrow> nat" where
  "sentinels cs = length (filter (\<lambda>c. fst (snd c) = shutdown_key) cs)"

text \<open>The state right after the post of \<open>exit_tun_loop\<close>.\<close>

definition posted :: "'c tun_state \<Rightarrow> 'c tun_state" where
  "posted s =
     emit (PostQueuedCompletionStatus 0 shutdown_key)
       (s\<lparr>port_queue := port_queue s @ [(0, shutdown_key, None)]\<rparr>)"

text \<open>The example after \<open>exit_tun_loop\<close> with a wait on the first thread only: thread 0
  took the shutdown packet, thread 1 still runs, the interface is destroyed.\<close>

definition ex_s1_exit :: "unit tun_state" where
  "ex_s1_exit =
     \<lparr>tun_listeners = [], tun_event_queue = 9, kThreadPool = [Exited, Running],
      objs = Map.empty,
      pkts = [(0, 5, \<lparr>write = False, sz = 4096, buf = readbuf_of 4096\<rparr>)],
      next_pkt = 1, port_queue = [],
      trace = [CreateIoCompletionPort 5 None 4096 2, CreateThread 0, CreateThread 1,
               ReadFile 5 4096 0, PostQueuedCompletionStatus 0 shutdown_key, thread_exit 0,
               WaitForMultipleObjects 1, CloseHandle_thread 0, driver (CancelIo 5),
               driver tuntap_destroy, delete_listener 4096, CloseHandle_queue 9]\<rparr>"

section \<open>The readiness backend: TCP and the loop\<close>

text \<open>\<open>WSAEINPROGRESS\<close> as Winsock defines it.\<close>

definition WSAEINPROGRESS :: int where
  "WSAEINPROGRESS = 10036"

text \<open>What the system answers to the socket calls of one operation of the loop.\<close>

record sock_answers =
  usocket_res :: int
  upoll_ctl_res :: int
  connect_res :: int
  WSAGetLastError_res :: int
  bind_res :: int
  ulisten_res :: int
  setsockopt_res :: int

text \<open>What the readiness backend does to the world, in program order: the calls of
  \<open>sock_call\<close>, the other socket calls, and the hooks.  \<open>run_ev_io_flush_write\<close>
  stands for the generic writer \<open>ev_io::flush_write\<close> of \<open>ev.hpp\<close>; \<open>delete_ev\<close> is
  \<open>delete\<close> of an endpoint.  Endpoints are named by their descriptor.\<close>

datatype loop_event =
    sys sock_call
  | sys_usocket_dgram ADDRESS_FAMILY
  | sys_bind int sockaddr nat
  | sys_ulisten int int
  | sys_setsockopt_v6only int
  | sys_close int
  | WSASetLastError int
  | hook_connected int
  | hook_error int
  | run_ev_io_flush_write int
  | delete_ev int

text \<open>\<open>llarp_tcp_connecter\<close>: the caller's hooks for an outbound connection.  The header
  tests the \<open>error\<close> hook for null before it calls it; the field says whether it is
  set.\<close>

record llarp_tcp_connecter =
  error :: bool

text \<open>\<open>llarp_udp_io\<close>: the two members this header writes, the listener behind \<open>impl\<close>
  (by descriptor, \<open>None\<close> is null) and the descriptor \<open>fd\<close>.\<close>

record llarp_udp_io =
  impl :: "int option"
  fd :: int

text \<open>\<open>tcp_conn\<close>, declared in \<open>ev.hpp\<close>: the descriptor, the remote address
  \<open>_addr\<close>, the connecter \<open>_conn\<close> and \<open>_shouldClose\<close> are the members this header
  uses; \<open>calledConnected\<close> records that the connected notification was fired.\<close>

record tcp_conn =
  fd :: int
  addr :: sockaddr
  conn :: llarp_tcp_connecter
  shouldClose :: bool
  calledConnected :: bool

text \<open>
  Modelled from the spec: the constructor of an outbound \<open>tcp_conn\<close> is in \<open>ev.hpp\<close>,
  which is not among the sources.  It stores the descriptor, the address and the
  connecter; the new connection has fired no notification and is not marked for
  closing.
\<close>

definition tcp_conn_ctor :: "int \<Rightarrow> sockaddr \<Rightarrow> llarp_tcp_connecter \<Rightarrow> tcp_conn" where
  "tcp_conn_ctor sock remote tcp =
     \<lparr>fd = sock, addr = remote, conn = tcp, shouldClose = False, calledConnected = False\<rparr>"

text \<open>
  Modelled from the spec: \<open>tcp_conn::connected()\<close> is in \<open>ev.hpp\<close>, which is not among
  the sources.  The spec: \<open>flush_write\<close> ``first fires a "connected" notification
  exactly once'', and a connect that completes at once invokes the ``connected''
  callback now.
\<close>

definition tcp_conn_connected :: "tcp_conn \<Rightarrow> tcp_conn \<times> loop_event list" where
  "tcp_conn_connected c =
     (if calledConnected c then (c, [])
      else (c\<lparr>calledConnected := True\<rparr>, [hook_connected (tcp_conn.fd c)]))"

text \<open>\<open>tcp_conn::flush_write\<close>.\<close>

definition tcp_conn_flush_write :: "tcp_conn \<Rightarrow> tcp_conn \<times> loop_event list" where
  "tcp_conn_flush_write c =
     (case tcp_conn_connected c of
        (c', evs) \<Rightarrow> (c', evs @ [run_ev_io_flush_write (tcp_conn.fd c)]))"

text \<open>The length \<open>tcp_conn::connect\<close> passes for the address.\<close>

definition connect_slen :: "ADDRESS_FAMILY \<Rightarrow> nat" where
  "connect_slen fam =
     (if fam = AF_UNIX then sizeof_sockaddr_un
      else if fam = AF_INET6 then sizeof_sockaddr_in6
      else sizeof_sockaddr_in)"

text \<open>\<open>tcp_conn::connect\<close>.\<close>

definition tcp_conn_connect :: "sock_answers \<Rightarrow> tcp_conn \<Rightarrow> tcp_conn \<times> loop_event list" where
  "tcp_conn_connect os c =
     (if connect_res os = 0 then
        (case tcp_conn_connected c of
           (c', evs) \<Rightarrow>
             (c', sys (sys_connect (tcp_conn.fd c) (addr c) (connect_slen (sa_family (addr c))))
                    # evs))
      else if WSAGetLastError_res os = WSAEINPROGRESS then
        (c, [sys (sys_connect (tcp_conn.fd c) (addr c) (connect_slen (sa_family (addr c)))),
             WSASetLastError 0])
      else if error (conn c) then
        (c, [sys (sys_connect (tcp_conn.fd c) (addr c) (connect_slen (sa_family (addr c)))),
             hook_error (tcp_conn.fd c)])
      else
        (c, [sys (sys_connect (tcp_conn.fd c) (addr c) (connect_slen (sa_family (addr c))))]))"

text \<open>The endpoints \<open>llarp::ev_io*\<close> can point at: the three classes this header builds,
  and an endpoint for a virtual interface.\<close>

datatype ev_io =
    Tcp_conn tcp_conn
  | Tcp_serv int
  | Udp_listener int
  | Tun_ev llarp_tun_io

datatype ev_kind = tcp_conn_kind | tcp_serv_kind | udp_listener_kind | tun_kind

fun ev_kind_of :: "ev_io \<Rightarrow> ev_kind" where
  "ev_kind_of (Tcp_conn c) = tcp_conn_kind"
| "ev_kind_of (Tcp_serv sock) = tcp_serv_kind"
| "ev_kind_of (Udp_listener sock) = udp_listener_kind"
| "ev_kind_of (Tun_ev tun) = tun_kind"

text \<open>\<open>e->fd\<close>; for a virtual interface the header gives none.\<close>

fun ev_fd :: "ev_io \<Rightarrow> int" where
  "ev_fd (Tcp_conn c) = tcp_conn.fd c"
| "ev_fd (Tcp_serv sock) = sock"
| "ev_fd (Udp_listener sock) = sock"
| "ev_fd (Tun_ev tun) = - 1"

text \<open>\<open>llarp_win32_loop\<close>: the registry \<open>handlers\<close> of \<open>llarp_ev_loop\<close>, in the order
  of registration.\<close>

record llarp_win32_loop =
  handlers :: "ev_io list"

text \<open>\<open>llarp_win32_loop::add_ev\<close>.\<close>

definition llarp_win32_loop_add_ev ::
  "sock_answers \<Rightarrow> ev_io \<Rightarrow> bool \<Rightarrow> llarp_win32_loop \<Rightarrow>
     bool \<times> llarp_win32_loop \<times> loop_event list" where
  "llarp_win32_loop_add_ev os e wr loop =
     (if upoll_ctl_res os = - 1
      then (False, loop, [sys (sys_upoll_ctl_add (ev_fd e) wr), delete_ev (ev_fd e)])
      else (True, loop\<lparr>handlers := handlers loop @ [e]\<rparr>,
            [sys (sys_upoll_ctl_add (ev_fd e) wr)]))"

text \<open>\<open>llarp_win32_loop::tcp_connect\<close>.  The result of \<open>add_ev\<close> is not looked at: when
  the registration fails, \<open>add_ev\<close> has deleted the connection and \<open>connect\<close> is called
  on the deleted object.  \<open>connect\<close> works on the object the registry holds.\<close>

definition tcp_connect ::
  "sock_answers \<Rightarrow> llarp_tcp_connecter \<Rightarrow> sockaddr \<Rightarrow> llarp_win32_loop \<Rightarrow>
     fault + (bool \<times> llarp_win32_loop \<times> loop_event list)" where
  "tcp_connect os tcp remoteaddr loop =
     (if usocket_res os = - 1
      then Inr (False, loop, [sys (sys_usocket (sa_family remoteaddr))])
      else
        (case llarp_win32_loop_add_ev os
                (Tcp_conn (tcp_conn_ctor (usocket_res os) remoteaddr tcp)) True loop of
           (ok, loop1, evs1) \<Rightarrow>
             if \<not> ok then Inl UseAfterFree
             else
               (case tcp_conn_connect os (tcp_conn_ctor (usocket_res os) remoteaddr tcp) of
                  (c', evs2) \<Rightarrow>
                    Inr (True,
                         loop1\<lparr>handlers := butlast (handlers loop1) @ [Tcp_conn c']\<rparr>,
                         sys (sys_usocket (sa_family remoteaddr)) # evs1 @ evs2))))"

text \<open>The length \<open>bind_tcp\<close> passes for the address.\<close>

definition bind_tcp_slen :: "ADDRESS_FAMILY \<Rightarrow> nat" where
  "bind_tcp_slen fam =
     (if fam = AF_INET6 then sizeof_sockaddr_in6
      else if fam = AF_UNIX then sizeof_sockaddr_un
      else sizeof_sockaddr_in)"

text \<open>\<open>llarp_win32_loop::bind_tcp\<close>.\<close>

definition bind_tcp :: "sock_answers \<Rightarrow> sockaddr \<Rightarrow> ev_io option \<times> loop_event list" where
  "bind_tcp os bindaddr =
     (if usocket_res os = - 1 then (None, [sys (sys_usocket (sa_family bindaddr))])
      else if bind_res os = - 1 then
        (None, [sys (sys_usocket (sa_family bindaddr)),
                sys_bind (usocket_res os) bindaddr (bind_tcp_slen (sa_family bindaddr)),
                sys_close (usocket_res os)])
      else if ulisten_res os = - 1 then
        (None, [sys (sys_usocket (sa_family bindaddr)),
                sys_bind (usocket_res os) bindaddr (bind_tcp_slen (sa_family bindaddr)),
                sys_ulisten (usocket_res os) 5,
                sys_close (usocket_res os)])
      else
        (Some (Tcp_serv (usocket_res os)),
         [sys (sys_usocket (sa_family bindaddr)),
          sys_bind (usocket_res os) bindaddr (bind_tcp_slen (sa_family bindaddr)),
          sys_ulisten (usocket_res os) 5]))"

text \<open>\<open>llarp_win32_loop::udp_bind\<close>.\<close>

definition udp_bind :: "sock_answers \<Rightarrow> sockaddr \<Rightarrow> int \<times> loop_event list" where
  "udp_bind os a =
     (case udp_slen (sa_family a) of
        None \<Rightarrow> (- 1, [])
      | Some slen \<Rightarrow>
          if usocket_res os = - 1 then (- 1, [sys_usocket_dgram (sa_family a)])
          else if sa_family a = AF_INET6 \<and> setsockopt_res os = - 1 then
            (- 1, [sys_usocket_dgram (sa_family a), sys_setsockopt_v6only (usocket_res os),
                   sys_close (usocket_res os)])
          else if bind_res os = - 1 then
            (- 1, sys_usocket_dgram (sa_family a)
                  # (if sa_family a = AF_INET6 then [sys_setsockopt_v6only (usocket_res os)]
                     else [])
                  @ [sys_bind (usocket_res os) a slen, sys_close (usocket_res os)])
          else
            (usocket_res os,
             sys_usocket_dgram (sa_family a)
               # (if sa_family a = AF_INET6 then [sys_setsockopt_v6only (usocket_res os)]
                  else [])
               @ [sys_bind (usocket_res os) a slen]))"

text \<open>\<open>llarp_win32_loop::create_udp\<close>.\<close>

definition create_udp ::
  "sock_answers \<Rightarrow> llarp_udp_io \<Rightarrow> sockaddr \<Rightarrow> ev_io option \<times> llarp_udp_io \<times> loop_event list" where
  "create_udp os l src =
     (case udp_bind os src of
        (sock, evs) \<Rightarrow>
          if sock = - 1 then (None, l, evs)
          else (Some (Udp_listener sock), l\<lparr>impl := Some sock\<rparr>, evs))"

text \<open>\<open>llarp_win32_loop::udp_listen\<close>.\<close>

definition udp_listen ::
  "sock_answers \<Rightarrow> llarp_udp_io \<Rightarrow> sockaddr \<Rightarrow> llarp_win32_loop \<Rightarrow>
     bool \<times> llarp_udp_io \<times> llarp_win32_loop \<times> loop_event list" where
  "udp_listen os l src loop =
     (case create_udp os l src of
        (None, l1, evs) \<Rightarrow> (False, l1, loop, evs)
      | (Some e, l1, evs) \<Rightarrow>
          (case llarp_win32_loop_add_ev os e False loop of
             (ok, loop1, evs1) \<Rightarrow> (ok, l1\<lparr>llarp_udp_io.fd := ev_fd e\<rparr>, loop1, evs @ evs1)))"

text \<open>\<open>llarp_win32_loop::create_tun\<close>: \<open>None\<close> is \<open>nullptr\<close>.\<close>

definition create_tun :: "llarp_tun_io \<Rightarrow> ev_io option" where
  "create_tun tun = None"

text \<open>An endpoint that is not one for a virtual interface.\<close>

definition no_tun :: "ev_io \<Rightarrow> bool" where
  "no_tun e \<longleftrightarrow> ev_kind_of e \<noteq> tun_kind"

text \<open>The system's \<open>connect\<close> as \<open>tcp_conn::connect\<close> calls it.\<close>

definition connect_call :: "tcp_conn \<Rightarrow> loop_event" where
  "connect_call c =
     sys (sys_connect (tcp_conn.fd c) (addr c) (connect_slen (sa_family (addr c))))"

definition is_sys :: "loop_event \<Rightarrow> bool" where
  "is_sys e = (case e of sys x \<Rightarrow> True | _ \<Rightarrow> False)"

text \<open>An example: the socket is 7, the poller accepts it, and the peer at an IPv4 address
  refuses the connection (\<open>WSAECONNREFUSED\<close>, 10061).\<close>

definition ex_refused :: sock_answers where
  "ex_refused =
     \<lparr>usocket_res = 7, upoll_ctl_res = 0, connect_res = - 1, WSAGetLastError_res = 10061,
      bind_res = 0, ulisten_res = 0, setsockopt_res = 0\<rparr>"

definition ex_remote :: sockaddr where
  "ex_remote = \<lparr>sa_family = AF_INET, sa_data = []\<rparr>"

section \<open>Auxiliary facts\<close>

lemma emit_sel [simp]:
  "trace (emit e s) = trace s @ [e]"
  "pkts (emit e s) = pkts s"
  "next_pkt (emit e s) = next_pkt s"
  "objs (emit e s) = objs s"
  "kThreadPool (emit e s) = kThreadPool s"
  "tun_event_queue (emit e s) = tun_event_queue s"
  "tun_listeners (emit e s) = tun_listeners s"
  "port_queue (emit e s) = port_queue s"
  by (simp_all add: emit_def)

lemma do_write_sel [simp]:
  "trace (do_write ev dat n s) = trace s @ [WriteFile (tun_fd ev) dat n (next_pkt s)]"
  "pkts (do_write ev dat n s) =
     pkts s @ [(next_pkt s, tun_fd ev, \<lparr>write = True, sz = n, buf = queued_bytes dat\<rparr>)]"
  "next_pkt (do_write ev dat n s) = Suc (next_pkt s)"
  "objs (do_write ev dat n s) = objs s"
  "kThreadPool (do_write ev dat n s) = kThreadPool s"
  "tun_event_queue (do_write ev dat n s) = tun_event_queue s"
  "tun_listeners (do_write ev dat n s) = tun_listeners s"
  "port_queue (do_write ev dat n s) = port_queue s"
  by (simp_all add: do_write_def new_pkt_def)

lemma read_sel [simp]:
  "trace (win32_tun_io_read this ev n s) = trace s @ [ReadFile (tun_fd ev) n (next_pkt s)]"
  "pkts (win32_tun_io_read this ev n s) =
     pkts s @ [(next_pkt s, tun_fd ev, \<lparr>write = False, sz = n, buf = readbuf_of this\<rparr>)]"
  "next_pkt (win32_tun_io_read this ev n s) = Suc (next_pkt s)"
  "objs (win32_tun_io_read this ev n s) = objs s"
  "kThreadPool (win32_tun_io_read this ev n s) = kThreadPool s"
  "tun_event_queue (win32_tun_io_read this ev n s) = tun_event_queue s"
  "tun_listeners (win32_tun_io_read this ev n s) = tun_listeners s"
  "port_queue (win32_tun_io_read this ev n s) = port_queue s"
  by (simp_all add: win32_tun_io_read_def new_pkt_def)

lemma free_pkt_sel [simp]:
  "trace (free_pkt a s) = trace s @ [delete_pkt a]"
  "pkts (free_pkt a s) = filter (\<lambda>e. fst e \<noteq> a) (pkts s)"
  "next_pkt (free_pkt a s) = next_pkt s"
  "objs (free_pkt a s) = objs s"
  "kThreadPool (free_pkt a s) = kThreadPool s"
  "tun_event_queue (free_pkt a s) = tun_event_queue s"
  "tun_listeners (free_pkt a s) = tun_listeners s"
  "port_queue (free_pkt a s) = port_queue s"
  by (simp_all add: free_pkt_def)

lemma do_writes_Nil [simp]: "do_writes ev [] s = s"
  by (simp add: do_writes_def)

lemma do_writes_Cons [simp]:
  "do_writes ev (b # bs) s = do_writes ev bs (do_write ev (WriteBuffer.buf b) (bufsz b) s)"
  by (simp add: do_writes_def)

lemma do_writes_trace:
  "trace (do_writes ev out s) = trace s @ write_events (tun_fd ev) (next_pkt s) out"
  by (induction out arbitrary: s) simp_all

lemma do_writes_pkts:
  "pkts (do_writes ev out s) = pkts s @ write_pkts (tun_fd ev) (next_pkt s) out"
  by (induction out arbitrary: s) simp_all

lemma do_writes_sel [simp]:
  "next_pkt (do_writes ev out s) = next_pkt s + length out"
  "objs (do_writes ev out s) = objs s"
  "kThreadPool (do_writes ev out s) = kThreadPool s"
  "tun_event_queue (do_writes ev out s) = tun_event_queue s"
  "tun_listeners (do_writes ev out s) = tun_listeners s"
  "port_queue (do_writes ev out s) = port_queue s"
  by (induction out arbitrary: s; simp)+

lemma write_events_no_read [simp]: "filter is_ReadFile (write_events h a out) = []"
  by (induction out arbitrary: a) (simp_all add: is_ReadFile_def)

lemma write_events_no_delete [simp]: "filter is_delete_pkt (write_events h a out) = []"
  by (induction out arbitrary: a) (simp_all add: is_delete_pkt_def)

lemma write_events_no_thread [simp]: "filter is_CreateThread (write_events h a out) = []"
  by (induction out arbitrary: a) (simp_all add: is_CreateThread_def)

lemma write_pkts_no_read [simp]:
  "filter (\<lambda>e. fst (snd e) = h' \<and> \<not> write (snd (snd e))) (write_pkts h a out) = []"
  by (induction out arbitrary: a) simp_all

lemma write_pkts_fresh: "b < a \<Longrightarrow> b \<notin> fst ` set (write_pkts h a out)"
  by (induction out arbitrary: a) auto

lemma do_write_queue_upd [simp]:
  "do_write (ev\<lparr>m_LossyWriteQueue := x\<rparr>) = do_write ev"
  by (simp add: do_write_def fun_eq_iff)

lemma do_writes_queue_upd [simp]:
  "do_writes (ev\<lparr>m_LossyWriteQueue := x\<rparr>) = do_writes ev"
  by (simp add: do_writes_def fun_eq_iff)

text \<open>What a drain does, when the object is alive and has its queue.\<close>

lemma flush_write_eq:
  assumes "objs s this = Some ev" and "m_LossyWriteQueue ev = Some q"
  shows "flush_write pf now this s =
    Inr (do_writes ev (fst (Process pf now q))
          ((if before_write (tio ev) then emit (hook_before_write this) s else s)
             \<lparr>objs := (objs s)(this \<mapsto> ev\<lparr>m_LossyWriteQueue := Some (snd (Process pf now q))\<rparr>)\<rparr>))"
  using assms by (simp add: flush_write_def do_writes_def split: prod.splits)

lemma codel_walk_subset: "set (fst (codel_walk d now c bs)) \<subseteq> set bs"
proof (induction bs arbitrary: c)
  case Nil
  show ?case by simp
next
  case (Cons b bs)
  obtain dropped c' where d: "d c now b = (dropped, c')"
    by (cases "d c now b")
  obtain out c'' where w: "codel_walk d now c' bs = (out, c'')"
    by (cases "codel_walk d now c' bs")
  from Cons.IH [of c'] w have "set out \<subseteq> set bs" by simp
  with d w show ?case by auto
qed

lemma Process_subset: "set (fst (Process pf now q)) \<subseteq> set (m_Queue q)"
  using codel_walk_subset [of "codel_drop pf" now "codel q" "sort_key timestamp (m_Queue q)"]
  by (cases "codel_walk (codel_drop pf) now (codel q) (sort_key timestamp (m_Queue q))")
    (simp add: Process_def)

lemma Process_empties: "m_Queue (snd (Process pf now q)) = []"
  by (cases "codel_walk (codel_drop pf) now (codel q) (sort_key timestamp (m_Queue q))")
    (simp add: Process_def)

lemma Emplace_fits:
  "length (m_Queue q) < MaxSize \<Longrightarrow> length dat \<le> EV_WRITE_BUF_SZ pf \<Longrightarrow>
   Emplace pf now dat q =
     q\<lparr>m_Queue := m_Queue q @ [\<lparr>timestamp = now, bufsz = length dat, buf = dat\<rparr>]\<rparr>"
  by (simp add: Emplace_def PutTime_def WriteBuffer_ctor_def)

lemma Emplace_oversize:
  "length (m_Queue q) < MaxSize \<Longrightarrow> EV_WRITE_BUF_SZ pf < length dat \<Longrightarrow>
   Emplace pf now dat q =
     q\<lparr>m_Queue := m_Queue q @ [\<lparr>timestamp = now, bufsz = 0, buf = []\<rparr>]\<rparr>"
  by (simp add: Emplace_def PutTime_def WriteBuffer_ctor_def)

lemma Emplace_full: "MaxSize \<le> length (m_Queue q) \<Longrightarrow> Emplace pf now dat q = q"
  by (simp add: Emplace_def)

lemma queue_write_eq:
  assumes "objs s this = Some ev" and "m_LossyWriteQueue ev = Some q"
  shows "queue_write pf now this dat s =
    Inr (True,
      do_writes ev (fst (Process pf now (Emplace pf now dat q)))
        ((if before_write (tio ev) then emit (hook_before_write this) s else s)
           \<lparr>objs := (objs s)(this \<mapsto>
              ev\<lparr>m_LossyWriteQueue := Some (snd (Process pf now (Emplace pf now dat q)))\<rparr>)\<rparr>))"
proof -
  let ?ev = "ev\<lparr>m_LossyWriteQueue := Some (Emplace pf now dat q)\<rparr>"
  let ?s = "s\<lparr>objs := (objs s)(this \<mapsto> ?ev)\<rparr>"
  have "flush_write pf now this ?s =
    Inr (do_writes ?ev (fst (Process pf now (Emplace pf now dat q)))
          ((if before_write (tio ?ev) then emit (hook_before_write this) ?s else ?s)
             \<lparr>objs := (objs ?s)(this \<mapsto>
                ?ev\<lparr>m_LossyWriteQueue := Some (snd (Process pf now (Emplace pf now dat q)))\<rparr>)\<rparr>))"
    by (rule flush_write_eq) simp_all
  then show ?thesis
    using assms by (simp add: queue_write_def emit_def)
qed

lemma drained_sel [simp]:
  "trace (drained pf now this ev q s) =
     trace s @ (if before_write (tio ev) then [hook_before_write this] else [])
       @ write_events (tun_fd ev) (next_pkt s) (fst (Process pf now q))"
  "pkts (drained pf now this ev q s) =
     pkts s @ write_pkts (tun_fd ev) (next_pkt s) (fst (Process pf now q))"
  "next_pkt (drained pf now this ev q s) = next_pkt s + length (fst (Process pf now q))"
  "objs (drained pf now this ev q s) =
     (objs s)(this \<mapsto> ev\<lparr>m_LossyWriteQueue := Some (snd (Process pf now q))\<rparr>)"
  "kThreadPool (drained pf now this ev q s) = kThreadPool s"
  "tun_event_queue (drained pf now this ev q s) = tun_event_queue s"
  "tun_listeners (drained pf now this ev q s) = tun_listeners s"
  "port_queue (drained pf now this ev q s) = port_queue s"
  by (simp_all add: drained_def do_writes_trace do_writes_pkts)

lemma flush_write_drained:
  "objs s this = Some ev \<Longrightarrow> m_LossyWriteQueue ev = Some q \<Longrightarrow>
   flush_write pf now this s = Inr (drained pf now this ev q s)"
  by (simp add: flush_write_eq drained_def)

lemma flush_write_InrD:
  assumes "flush_write pf now this s = Inr s'"
  obtains ev q where "objs s this = Some ev" and "m_LossyWriteQueue ev = Some q"
    and "s' = drained pf now this ev q s"
proof (cases "objs s this")
  case None
  with assms show ?thesis by (simp add: flush_write_def)
next
  case (Some ev)
  show ?thesis
  proof (cases "m_LossyWriteQueue ev")
    case None
    with Some assms show ?thesis by (simp add: flush_write_def)
  next
    case (Some q)
    with \<open>objs s this = Some ev\<close> assms that show ?thesis
      by (simp add: flush_write_drained)
  qed
qed

lemma queue_write_drained:
  "objs s this = Some ev \<Longrightarrow> m_LossyWriteQueue ev = Some q \<Longrightarrow>
   queue_write pf now this dat s = Inr (True, drained pf now this ev (Emplace pf now dat q) s)"
  by (simp add: queue_write_eq drained_def)

lemma queue_write_InrD:
  assumes "queue_write pf now this dat s = Inr (ok, s')"
  obtains "\<not> ok" and "s' = s"
  | ev q where "ok" and "objs s this = Some ev" and "m_LossyWriteQueue ev = Some q"
      and "s' = drained pf now this ev (Emplace pf now dat q) s"
proof (cases "objs s this")
  case None
  with assms show ?thesis by (simp add: queue_write_def)
next
  case (Some ev)
  show ?thesis
  proof (cases "m_LossyWriteQueue ev")
    case None
    with Some assms that(1) show ?thesis by (simp add: queue_write_def)
  next
    case (Some q)
    with \<open>objs s this = Some ev\<close> assms that(2) show ?thesis
      by (simp add: queue_write_drained)
  qed
qed

lemma after_completion_sel [simp]:
  "trace (after_completion pf this ev a s) =
     trace s @ [ReadFile (tun_fd ev) (EV_READ_BUF_SZ pf) (next_pkt s), delete_pkt a]"
  "pkts (after_completion pf this ev a s) =
     filter (\<lambda>e. fst e \<noteq> a)
       (pkts s @ [(next_pkt s, tun_fd ev,
                   \<lparr>write = False, sz = EV_READ_BUF_SZ pf, buf = readbuf_of this\<rparr>)])"
  "next_pkt (after_completion pf this ev a s) = Suc (next_pkt s)"
  "objs (after_completion pf this ev a s) = objs s"
  "kThreadPool (after_completion pf this ev a s) = kThreadPool s"
  "tun_event_queue (after_completion pf this ev a s) = tun_event_queue s"
  "tun_listeners (after_completion pf this ev a s) = tun_listeners s"
  "port_queue (after_completion pf this ev a s) = port_queue s"
  by (simp_all add: after_completion_def)

lemma recv_hooked_sel [simp]:
  "trace (recv_hooked this ev pkt n s) =
     trace s @ (if recvpkt (tio ev) then [hook_recvpkt this (asio_evt_pkt.buf pkt) n] else [])"
  "pkts (recv_hooked this ev pkt n s) = pkts s"
  "next_pkt (recv_hooked this ev pkt n s) = next_pkt s"
  "objs (recv_hooked this ev pkt n s) = objs s"
  "kThreadPool (recv_hooked this ev pkt n s) = kThreadPool s"
  "tun_event_queue (recv_hooked this ev pkt n s) = tun_event_queue s"
  "tun_listeners (recv_hooked this ev pkt n s) = tun_listeners s"
  "port_queue (recv_hooked this ev pkt n s) = port_queue s"
  by (simp_all add: recv_hooked_def)

lemma tun_ev_body_None [simp]: "tun_ev_body pf now None s = Inr (False, s)"
  by (simp add: tun_ev_body_def)

lemma tun_ev_body_sentinel [simp]: "tun_ev_body pf now (Some (n, shutdown_key, ovl)) s = Inr (True, s)"
  by (simp add: tun_ev_body_def)

lemma tun_ev_body_write:
  "listener \<noteq> shutdown_key \<Longrightarrow> map_of (pkts s) a = Some (h, pkt) \<Longrightarrow> objs s listener = Some ev \<Longrightarrow>
   write pkt \<Longrightarrow>
   tun_ev_body pf now (Some (n, listener, Some a)) s =
     Inr (False, after_completion pf listener ev a s)"
  by (simp add: tun_ev_body_def after_completion_def)

lemma tun_ev_body_read:
  "listener \<noteq> shutdown_key \<Longrightarrow> map_of (pkts s) a = Some (h, pkt) \<Longrightarrow> objs s listener = Some ev \<Longrightarrow>
   \<not> write pkt \<Longrightarrow> m_LossyWriteQueue ev = Some q \<Longrightarrow>
   tun_ev_body pf now (Some (n, listener, Some a)) s =
     Inr (False, after_completion pf listener ev a
                   (drained pf now listener ev q (recv_hooked listener ev pkt n s)))"
proof -
  assume a: "listener \<noteq> shutdown_key" "map_of (pkts s) a = Some (h, pkt)" "objs s listener = Some ev"
    "\<not> write pkt" "m_LossyWriteQueue ev = Some q"
  have "flush_write pf now listener (recv_hooked listener ev pkt n s) =
      Inr (drained pf now listener ev q (recv_hooked listener ev pkt n s))"
    using a by (intro flush_write_drained) simp_all
  then show ?thesis
    using a by (simp add: tun_ev_body_def after_completion_def recv_hooked_def)
qed

lemma tun_ev_body_InrD:
  assumes "tun_ev_body pf now r s = Inr (left, s')"
  obtains "r = None" and "\<not> left" and "s' = s"
  | n ovl where "r = Some (n, shutdown_key, ovl)" and "left" and "s' = s"
  | n listener a h pkt ev where "r = Some (n, listener, Some a)" and "listener \<noteq> shutdown_key"
      and "map_of (pkts s) a = Some (h, pkt)" and "objs s listener = Some ev" and "write pkt"
      and "\<not> left" and "s' = after_completion pf listener ev a s"
  | n listener a h pkt ev q where "r = Some (n, listener, Some a)" and "listener \<noteq> shutdown_key"
      and "map_of (pkts s) a = Some (h, pkt)" and "objs s listener = Some ev" and "\<not> write pkt"
      and "m_LossyWriteQueue ev = Some q"
      and "\<not> left" and "s' = after_completion pf listener ev a
                   (drained pf now listener ev q (recv_hooked listener ev pkt n s))"
proof (cases r)
  case None
  with assms that(1) show ?thesis by simp
next
  case (Some c)
  obtain n listener ovl where c: "c = (n, listener, ovl)" by (cases c)
  show ?thesis
  proof (cases "listener = shutdown_key")
    case True
    with Some c assms that(2) show ?thesis by simp
  next
    case False
    note sent = this
    show ?thesis
    proof (cases ovl)
      case None
      with Some c sent assms show ?thesis by (simp add: tun_ev_body_def)
    next
      case (Some a)
      note ovl = this
      show ?thesis
      proof (cases "map_of (pkts s) a")
        case None
        with \<open>r = Some c\<close> c sent ovl assms show ?thesis by (simp add: tun_ev_body_def)
      next
        case (Some hp)
        obtain h pkt where hp: "hp = (h, pkt)" by (cases hp)
        note m = Some [unfolded hp]
        show ?thesis
        proof (cases "objs s listener")
          case None
          with \<open>r = Some c\<close> c sent ovl m assms show ?thesis by (simp add: tun_ev_body_def)
        next
          case (Some ev)
          note ev = this
          show ?thesis
          proof (cases "write pkt")
            case True
            with \<open>r = Some c\<close> c sent ovl m ev assms that(3) show ?thesis
              by (simp add: tun_ev_body_write)
          next
            case False
            note rd = this
            show ?thesis
            proof (cases "m_LossyWriteQueue ev")
              case None
              have "flush_write pf now listener (recv_hooked listener ev pkt n s) = Inl NullDeref"
                using ev None by (simp add: flush_write_def)
              with \<open>r = Some c\<close> c sent ovl m ev rd assms show ?thesis
                by (simp add: tun_ev_body_def recv_hooked_def)
            next
              case (Some q)
              with \<open>r = Some c\<close> c sent ovl m ev rd assms that(4) show ?thesis
                by (simp add: tun_ev_body_read)
            qed
          qed
        qed
      qed
    qed
  qed
qed

subsection \<open>Threads\<close>

lemma spawn_unfold:
  "spawn i n s =
     (if i < n
      then spawn (i + 1) n (emit (CreateThread (nat i)) (s\<lparr>kThreadPool := kThreadPool s @ [Running]\<rparr>))
      else s)"
  by (rule spawn.simps)

declare spawn.simps [simp del]

lemma spawn_pool: "kThreadPool (spawn i n s) = kThreadPool s @ replicate (nat (n - i)) Running"
proof (induction i n s rule: spawn.induct)
  case (1 i n s)
  show ?case
  proof (cases "i < n")
    case True
    then have "nat (n - i) = Suc (nat (n - (i + 1)))" by simp
    with True "1.IH" show ?thesis
      by (subst spawn_unfold) (simp add: replicate_app_Cons_same)
  next
    case False
    then show ?thesis by (subst spawn_unfold) simp
  qed
qed

lemma spawn_trace:
  "trace (spawn i n s) = trace s @ map (\<lambda>k. CreateThread (nat k)) [i..n - 1]"
proof (induction i n s rule: spawn.induct)
  case (1 i n s)
  show ?case
  proof (cases "i < n")
    case True
    then have "[i..n - 1] = i # [i + 1..n - 1]" by (simp add: upto_rec1)
    with True "1.IH" show ?thesis
      by (subst spawn_unfold) simp
  next
    case False
    then show ?thesis by (subst spawn_unfold) simp
  qed
qed

lemma spawn_sel [simp]:
  "pkts (spawn i n s) = pkts s"
  "next_pkt (spawn i n s) = next_pkt s"
  "objs (spawn i n s) = objs s"
  "tun_event_queue (spawn i n s) = tun_event_queue s"
  "tun_listeners (spawn i n s) = tun_listeners s"
  "port_queue (spawn i n s) = port_queue s"
  by (induction i n s rule: spawn.induct; subst spawn_unfold; simp)+

lemma upto_nat_threads: "map (\<lambda>k. CreateThread (nat k)) [0..int m - 1] = map CreateThread [0..<m]"
proof (induction m)
  case 0
  show ?case by simp
next
  case (Suc m)
  have "[0..int (Suc m) - 1] = [0..int m - 1] @ [int m]"
    using upto_rec2 [of 0 "int m"] by simp
  with Suc show ?case by simp
qed

lemma sint_twice_cpus:
  fixes numCPU :: "32 word"
  assumes "unat numCPU < 2 ^ 30"
  shows "sint (numCPU * 2) = 2 * int (unat numCPU)"
proof -
  have u: "unat (numCPU * 2) = unat numCPU * 2"
    using assms by (simp add: unat_word_ariths)
  then have ui: "uint (numCPU * 2) = 2 * int (unat numCPU)"
    by (metis mult.commute of_nat_mult of_nat_numeral of_nat_unat)
  have b: "int (unat numCPU) < 2 ^ 30"
    using assms by (metis of_nat_less_iff of_nat_numeral of_nat_power)
  have "signed_take_bit 31 (2 * int (unat numCPU)) = 2 * int (unat numCPU)"
  proof (rule signed_take_bit_int_eq_self)
    have p: "(2::int) ^ 31 = 2 * 2 ^ 30" by simp
    have q: "(0::int) < 2 ^ 30" by simp
    show "- (2 ^ 31) \<le> 2 * int (unat numCPU)"
      unfolding p using q by linarith
    show "2 * int (unat numCPU) < 2 ^ 31"
      unfolding p using b by linarith
  qed
  then show ?thesis
    using ui by (simp add: sint_uint)
qed

subsection \<open>Registration\<close>

lemma add_ev_first:
  assumes "objs s this = Some ev" and "tun_event_queue s = INVALID_HANDLE_VALUE"
    and "0 \<le> sint (numCPU * 2)"
  shows "add_ev this numCPU port s =
    Inr (True,
      win32_tun_io_read this ev 4096
        ((spawn 0 (sint (numCPU * 2))
            ((emit (CreateIoCompletionPort (tun_fd ev) None this (numCPU * 2))
                (s\<lparr>tun_event_queue := port\<rparr>))\<lparr>kThreadPool := []\<rparr>))
           \<lparr>tun_listeners := tun_listeners s @ [this]\<rparr>))"
  using assms by (simp add: add_ev_def begin_tun_loop_def)

lemma add_ev_later:
  assumes "objs s this = Some ev" and "tun_event_queue s \<noteq> INVALID_HANDLE_VALUE"
  shows "add_ev this numCPU port s =
    Inr (True,
      win32_tun_io_read this ev 4096
        ((emit (CreateIoCompletionPort (tun_fd ev) (Some (tun_event_queue s)) this 0) s)
           \<lparr>tun_listeners := tun_listeners s @ [this]\<rparr>))"
  using assms by (simp add: add_ev_def)

lemma add_ev_InrD:
  assumes "add_ev this numCPU port s = Inr (ok, s')"
  obtains ev where "objs s this = Some ev" and "tun_event_queue s = INVALID_HANDLE_VALUE"
      and "0 \<le> sint (numCPU * 2)"
      and "s' = win32_tun_io_read this ev 4096
        ((spawn 0 (sint (numCPU * 2))
            ((emit (CreateIoCompletionPort (tun_fd ev) None this (numCPU * 2))
                (s\<lparr>tun_event_queue := port\<rparr>))\<lparr>kThreadPool := []\<rparr>))
           \<lparr>tun_listeners := tun_listeners s @ [this]\<rparr>)"
  | ev where "objs s this = Some ev" and "tun_event_queue s \<noteq> INVALID_HANDLE_VALUE"
      and "s' = win32_tun_io_read this ev 4096
        ((emit (CreateIoCompletionPort (tun_fd ev) (Some (tun_event_queue s)) this 0) s)
           \<lparr>tun_listeners := tun_listeners s @ [this]\<rparr>)"
proof (cases "objs s this")
  case None
  with assms show ?thesis by (simp add: add_ev_def)
next
  case (Some ev)
  show ?thesis
  proof (cases "tun_event_queue s = INVALID_HANDLE_VALUE")
    case False
    with Some assms that(2) show ?thesis by (simp add: add_ev_later)
  next
    case True
    show ?thesis
    proof (cases "0 \<le> sint (numCPU * 2)")
      case True
      with Some \<open>tun_event_queue s = INVALID_HANDLE_VALUE\<close> assms that(1) show ?thesis
        by (simp add: add_ev_first)
    next
      case False
      with Some \<open>tun_event_queue s = INVALID_HANDLE_VALUE\<close> assms show ?thesis
        by (simp add: add_ev_def begin_tun_loop_def)
    qed
  qed
qed

subsection \<open>One thread waking\<close>

lemma wake_idle:
  "\<not> (j < length (kThreadPool s) \<and> kThreadPool s ! j = Running) \<Longrightarrow> wake pf j now s = Inr s"
  unfolding wake_def by (simp only: if_False)

lemma wake_timeout: "port_queue s = [] \<Longrightarrow> wake pf j now s = Inr s"
  by (simp add: wake_def)

lemma wake_sentinel:
  "j < length (kThreadPool s) \<Longrightarrow> kThreadPool s ! j = Running \<Longrightarrow>
   port_queue s = (n, shutdown_key, ovl) # cs \<Longrightarrow>
   wake pf j now s =
     Inr (emit (thread_exit j) (s\<lparr>port_queue := cs, kThreadPool := (kThreadPool s)[j := Exited]\<rparr>))"
  by (simp add: wake_def)

lemma wake_InrD:
  assumes "wake pf j now s = Inr s'"
  obtains "s' = s"
  | c cs left s1 where "j < length (kThreadPool s)" and "kThreadPool s ! j = Running"
      and "port_queue s = c # cs"
      and "tun_ev_body pf now (Some c) (s\<lparr>port_queue := cs\<rparr>) = Inr (left, s1)"
      and "s' = (if left
                 then emit (thread_exit j) (s1\<lparr>kThreadPool := (kThreadPool s1)[j := Exited]\<rparr>)
                 else s1)"
proof (cases "j < length (kThreadPool s) \<and> kThreadPool s ! j = Running")
  case False
  with assms that(1) show ?thesis by (simp add: wake_idle)
next
  case True
  show ?thesis
  proof (cases "port_queue s")
    case Nil
    with assms that(1) show ?thesis by (simp add: wake_timeout)
  next
    case (Cons c cs)
    show ?thesis
    proof (cases "tun_ev_body pf now (Some c) (s\<lparr>port_queue := cs\<rparr>)")
      case (Inl f)
      with True Cons assms show ?thesis by (simp add: wake_def)
    next
      case (Inr res)
      obtain left s1 where "res = (left, s1)" by (cases res)
      with True Cons Inr assms that(2) [of c cs left s1] show ?thesis
        by (simp add: wake_def split: if_splits)
    qed
  qed
qed

lemma new_events_append [simp]: "trace s' = trace s @ evs \<Longrightarrow> new_events s s' = evs"
  by (simp add: new_events_def)

lemma new_events_refl [simp]: "new_events s s = []"
  by (simp add: new_events_def)

lemma new_events_eq: "trace s' = trace s @ new_events s s' \<longleftrightarrow> (\<exists>evs. trace s' = trace s @ evs)"
  by (auto simp: new_events_def)

lemma pool_keptI:
  "tun_event_queue s' = tun_event_queue s \<Longrightarrow> length (kThreadPool s') = length (kThreadPool s) \<Longrightarrow>
   trace s' = trace s @ evs \<Longrightarrow> filter is_CreateThread evs = [] \<Longrightarrow> pool_kept s s'"
  by (simp add: pool_kept_def)

lemma pool_kept_refl: "pool_kept s s"
  by (simp add: pool_kept_def)

lemma pool_keptD:
  assumes "pool_kept s s'"
  obtains evs where "tun_event_queue s' = tun_event_queue s"
    and "length (kThreadPool s') = length (kThreadPool s)"
    and "trace s' = trace s @ evs" and "filter is_CreateThread evs = []"
  using assms unfolding pool_kept_def by blast

lemma pool_kept_trans:
  assumes "pool_kept s s'" and "pool_kept s' s''"
  shows "pool_kept s s''"
proof -
  from assms(1) obtain e1 where 1: "tun_event_queue s' = tun_event_queue s"
    "length (kThreadPool s') = length (kThreadPool s)"
    "trace s' = trace s @ e1" "filter is_CreateThread e1 = []"
    by (rule pool_keptD)
  from assms(2) obtain e2 where 2: "tun_event_queue s'' = tun_event_queue s'"
    "length (kThreadPool s'') = length (kThreadPool s')"
    "trace s'' = trace s' @ e2" "filter is_CreateThread e2 = []"
    by (rule pool_keptD)
  show ?thesis
  proof (rule pool_keptI)
    show "trace s'' = trace s @ (e1 @ e2)" using 1(3) 2(3) by simp
    show "filter is_CreateThread (e1 @ e2) = []" using 1(4) 2(4) by simp
  qed (simp_all add: 1 2)
qed

lemma is_CreateThread_simps [simp]:
  "\<not> is_CreateThread (hook_before_write k)"
  "\<not> is_CreateThread (hook_recvpkt k b n)"
  "\<not> is_CreateThread (ReadFile h n a)"
  "\<not> is_CreateThread (delete_pkt a)"
  "\<not> is_CreateThread (thread_exit j)"
  "\<not> is_CreateThread (CreateIoCompletionPort h p k w)"
  "is_CreateThread (CreateThread j)"
  by (simp_all add: is_CreateThread_def)

lemma body_pool_kept:
  assumes "tun_ev_body pf now r s = Inr (left, s')"
  shows "pool_kept s s' \<and> kThreadPool s' = kThreadPool s"
  using assms
proof (cases rule: tun_ev_body_InrD)
  case 1
  then show ?thesis by (simp add: pool_kept_refl)
next
  case (2 n ovl)
  then show ?thesis by (simp add: pool_kept_refl)
next
  case (3 n listener a h pkt ev)
  then show ?thesis by (auto intro!: pool_keptI)
next
  case (4 n listener a h pkt ev q)
  then show ?thesis by (auto intro!: pool_keptI)
qed

lemma wake_pool_kept:
  assumes "wake pf j now s = Inr s'"
  shows "pool_kept s s'"
  using assms
proof (cases rule: wake_InrD)
  case 1
  then show ?thesis by (simp add: pool_kept_refl)
next
  case (2 c cs left s1)
  from body_pool_kept [OF 2(4)]
  have k: "pool_kept (s\<lparr>port_queue := cs\<rparr>) s1" and p: "kThreadPool s1 = kThreadPool s"
    by simp_all
  from k have "pool_kept s s1"
    by (simp add: pool_kept_def new_events_def)
  moreover have "pool_kept s1 s'"
    using 2(5) by (auto intro!: pool_keptI)
  ultimately show ?thesis by (rule pool_kept_trans)
qed

lemma queue_write_pool_kept:
  assumes "queue_write pf now this dat s = Inr (ok, s')"
  shows "pool_kept s s'"
  using assms
proof (cases rule: queue_write_InrD)
  case 1
  then show ?thesis by (simp add: pool_kept_refl)
next
  case (2 ev q)
  then show ?thesis by (auto intro!: pool_keptI)
qed

lemma add_ev_later_pool_kept:
  assumes "add_ev this numCPU port s = Inr (ok, s')"
    and "tun_event_queue s \<noteq> INVALID_HANDLE_VALUE"
  shows "pool_kept s s'"
  using assms(1)
proof (cases rule: add_ev_InrD)
  case (1 ev)
  with assms(2) show ?thesis by simp
next
  case (2 ev)
  then show ?thesis by (auto intro!: pool_keptI)
qed

lemma apply_op_pool_kept:
  assumes "apply_op pf x s = Inr s'" and "tun_event_queue s \<noteq> INVALID_HANDLE_VALUE"
  shows "pool_kept s s'"
proof (cases x)
  case (op_add_ev this numCPU port)
  with assms(1) obtain ok where "add_ev this numCPU port s = Inr (ok, s')"
    by (auto split: sum.splits)
  then show ?thesis using assms(2) by (rule add_ev_later_pool_kept)
next
  case (op_queue_write now this dat)
  with assms(1) obtain ok where "queue_write pf now this dat s = Inr (ok, s')"
    by (auto split: sum.splits)
  then show ?thesis by (rule queue_write_pool_kept)
next
  case (op_wake j now)
  with assms(1) show ?thesis by (simp add: wake_pool_kept)
qed

lemma run_ops_pool_kept:
  "run_ops pf xs s = Inr s' \<Longrightarrow> tun_event_queue s \<noteq> INVALID_HANDLE_VALUE \<Longrightarrow> pool_kept s s'"
proof (induction xs arbitrary: s)
  case Nil
  then show ?case by (simp add: pool_kept_refl)
next
  case (Cons x xs)
  from Cons.prems(1) obtain s1 where a: "apply_op pf x s = Inr s1" and r: "run_ops pf xs s1 = Inr s'"
    by (auto split: sum.splits)
  from a Cons.prems(2) have k: "pool_kept s s1" by (rule apply_op_pool_kept)
  then have "tun_event_queue s1 \<noteq> INVALID_HANDLE_VALUE"
    using Cons.prems(2) by (simp add: pool_kept_def)
  with r have "pool_kept s1 s'" by (rule Cons.IH)
  with k show ?case by (rule pool_kept_trans)
qed

lemma add_ev_first_effect:
  fixes s :: "'c tun_state"
  assumes "objs s this = Some ev" and "tun_event_queue s = INVALID_HANDLE_VALUE"
    and "unat numCPU < 2 ^ 30"
  shows "\<exists>s'. add_ev this numCPU port s = Inr (True, s')
         \<and> tun_event_queue s' = port
         \<and> kThreadPool s' = replicate (2 * unat numCPU) Running
         \<and> trace s' = trace s
              @ [CreateIoCompletionPort (tun_fd ev) None this (numCPU * 2)]
              @ map CreateThread [0..<2 * unat numCPU]
              @ [ReadFile (tun_fd ev) 4096 (next_pkt s)]"
proof -
  define m where "m = unat numCPU"
  have n: "sint (numCPU * 2) = 2 * int m"
    using assms(3) by (simp only: m_def sint_twice_cpus)
  have t: "map (\<lambda>k. CreateThread (nat k)) [0..2 * int m - 1] = map CreateThread [0..<2 * m]"
    using upto_nat_threads [of "2 * m"] by simp
  have p: "nat (2 * int m - 0) = 2 * m"
    by simp
  define s1 where "s1 = (emit (CreateIoCompletionPort (tun_fd ev) None this (numCPU * 2))
                (s\<lparr>tun_event_queue := port\<rparr>))\<lparr>kThreadPool := []\<rparr>"
  define s2 where "s2 = spawn 0 (2 * int m) s1"
  define s' where "s' = win32_tun_io_read this ev 4096 (s2\<lparr>tun_listeners := tun_listeners s @ [this]\<rparr>)"
  have "0 \<le> sint (numCPU * 2)"
    unfolding n by simp
  with assms have "add_ev this numCPU port s = Inr (True, s')"
    unfolding s'_def s2_def s1_def n [symmetric] by (intro add_ev_first)
  moreover have "tun_event_queue s2 = port"
    unfolding s2_def by (simp add: s1_def)
  then have "tun_event_queue s' = port"
    by (simp add: s'_def)
  moreover have "kThreadPool s2 = replicate (2 * m) Running"
    unfolding s2_def spawn_pool p by (simp add: s1_def)
  then have "kThreadPool s' = replicate (2 * m) Running"
    by (simp add: s'_def)
  moreover have "trace s2 = trace s @ [CreateIoCompletionPort (tun_fd ev) None this (numCPU * 2)]
              @ map CreateThread [0..<2 * m]"
    unfolding s2_def spawn_trace t by (simp add: s1_def)
  then have "trace s' = trace s
              @ [CreateIoCompletionPort (tun_fd ev) None this (numCPU * 2)]
              @ map CreateThread [0..<2 * m]
              @ [ReadFile (tun_fd ev) 4096 (next_pkt s)]"
    by (simp add: s'_def s2_def s1_def)
  ultimately show ?thesis
    unfolding m_def by blast
qed

lemma add_ev_later_effect:
  fixes s :: "'c tun_state"
  assumes "objs s this = Some ev" and "tun_event_queue s \<noteq> INVALID_HANDLE_VALUE"
  shows "\<exists>s'. add_ev this numCPU port s = Inr (True, s')
         \<and> tun_event_queue s' = tun_event_queue s
         \<and> kThreadPool s' = kThreadPool s
         \<and> trace s' = trace s
              @ [CreateIoCompletionPort (tun_fd ev) (Some (tun_event_queue s)) this 0,
                 ReadFile (tun_fd ev) 4096 (next_pkt s)]"
proof -
  define s' where "s' = win32_tun_io_read this ev 4096
        ((emit (CreateIoCompletionPort (tun_fd ev) (Some (tun_event_queue s)) this 0) s)
           \<lparr>tun_listeners := tun_listeners s @ [this]\<rparr>)"
  have "add_ev this numCPU port s = Inr (True, s')"
    unfolding s'_def using assms by (rule add_ev_later)
  moreover have "tun_event_queue s' = tun_event_queue s" "kThreadPool s' = kThreadPool s"
    "trace s' = trace s
              @ [CreateIoCompletionPort (tun_fd ev) (Some (tun_event_queue s)) this 0,
                 ReadFile (tun_fd ev) 4096 (next_pkt s)]"
    by (simp_all add: s'_def)
  ultimately show ?thesis by blast
qed

lemma ex_ctor: "win32_tun_io_ctor ex_cfg 5 () = ex_ev"
  by (simp add: win32_tun_io_ctor_def ex_ev_def)

lemma ex_spawn: "spawn 0 2 s = emit (CreateThread 1) ((emit (CreateThread 0) (s\<lparr>kThreadPool := kThreadPool s @ [Running]\<rparr>))\<lparr>kThreadPool := kThreadPool s @ [Running, Running]\<rparr>)"
  apply (subst spawn_unfold, simp)
  apply (subst spawn_unfold, simp)
  apply (subst spawn_unfold, simp)
  done

lemma ex_add_ev: "add_ev 4096 1 9 ex_s0 = Inr (True, ex_s1)"
  by (simp add: add_ev_def begin_tun_loop_def ex_s0_def ex_s1_def ex_spawn emit_def
      win32_tun_io_read_def new_pkt_def ex_ev_def)

lemma ex_Process:
  "Process ex_pf now \<lparr>m_Queue = [b], codel = ()\<rparr> = ([b], \<lparr>m_Queue = [], codel = ()\<rparr>)"
  by (simp add: Process_def ex_pf_def)

lemma ex_queue_write: "queue_write ex_pf 7 4096 [1, 2, 3] ex_s1 = Inr (True, ex_s2)"
  by (simp add: queue_write_def flush_write_def ex_s1_def ex_s2_def ex_ev_def ex_cfg_def
      Emplace_def MaxSize_def PutTime_def WriteBuffer_ctor_def ex_Process
      emit_def do_write_def new_pkt_def)
    (simp add: ex_pf_def)

lemma ex_write_completion:
  "tun_ev_body ex_pf 8 (Some (3, 4096, Some 1)) ex_s2 = Inr (False, ex_s3)"
  by (simp add: tun_ev_body_def ex_s2_def ex_s3_def shutdown_key_def ex_pf_def
      free_pkt_def win32_tun_io_read_def new_pkt_def emit_def ex_ev_def)

lemma ex_objs: "objs ex_s0 4096 = Some ex_ev" "objs ex_s1 4096 = Some ex_ev"
  "objs ex_s2 4096 = Some ex_ev"
  by (simp_all add: ex_s0_def ex_s1_def ex_s2_def)

lemma queues_empty_objs: "objs s' = objs s \<Longrightarrow> queues_empty s \<Longrightarrow> queues_empty s'"
  by (simp add: queues_empty_def)

lemma queues_empty_drained:
  assumes "queues_empty s"
  shows "queues_empty (drained pf now this ev q s)"
  unfolding queues_empty_def
proof (intro allI impI)
  fix k ev' q'
  assume o: "objs (drained pf now this ev q s) k = Some ev'"
    and m: "m_LossyWriteQueue ev' = Some q'"
  show "m_Queue q' = []"
  proof (cases "k = this")
    case True
    with o have "ev' = ev\<lparr>m_LossyWriteQueue := Some (snd (Process pf now q))\<rparr>" by simp
    with m have "q' = snd (Process pf now q)" by simp
    then show ?thesis by (simp add: Process_empties)
  next
    case False
    with o have "objs s k = Some ev'" by simp
    with assms m show ?thesis unfolding queues_empty_def by blast
  qed
qed

lemma body_queues_empty:
  assumes "tun_ev_body pf now r s = Inr (left, s')" and "queues_empty s"
  shows "queues_empty s'"
  using assms(1)
proof (cases rule: tun_ev_body_InrD)
  case 1
  with assms(2) show ?thesis by simp
next
  case (2 n ovl)
  with assms(2) show ?thesis by simp
next
  case (3 n listener a h pkt ev)
  have "objs s' = objs s" using 3(7) by simp
  then show ?thesis using assms(2) by (rule queues_empty_objs)
next
  case (4 n listener a h pkt ev q)
  have "objs (recv_hooked listener ev pkt n s) = objs s" by simp
  then have "queues_empty (recv_hooked listener ev pkt n s)"
    using assms(2) by (rule queues_empty_objs)
  then have d: "queues_empty (drained pf now listener ev q (recv_hooked listener ev pkt n s))"
    by (rule queues_empty_drained)
  have "objs s' = objs (drained pf now listener ev q (recv_hooked listener ev pkt n s))"
    unfolding 4(8) by (rule after_completion_sel(4))
  then show ?thesis using d by (rule queues_empty_objs)
qed

lemma wake_queues_empty:
  assumes "wake pf j now s = Inr s'" and "queues_empty s"
  shows "queues_empty s'"
  using assms(1)
proof (cases rule: wake_InrD)
  case 1
  with assms(2) show ?thesis by simp
next
  case (2 c cs left s1)
  have "queues_empty (s\<lparr>port_queue := cs\<rparr>)"
    using assms(2) by (simp add: queues_empty_def)
  with 2(4) have q1: "queues_empty s1" by (rule body_queues_empty)
  have "objs s' = objs s1" using 2(5) by simp
  then show ?thesis using q1 by (rule queues_empty_objs)
qed

lemma queue_write_queues_empty:
  assumes "queue_write pf now this dat s = Inr (ok, s')" and "queues_empty s"
  shows "queues_empty s'"
  using assms(1)
proof (cases rule: queue_write_InrD)
  case 1
  with assms(2) show ?thesis by simp
next
  case (2 ev q)
  from assms(2) show ?thesis unfolding 2(4) by (rule queues_empty_drained)
qed

lemma add_ev_queues_empty:
  assumes "add_ev this numCPU port s = Inr (ok, s')" and "queues_empty s"
  shows "queues_empty s'"
  using assms(1)
proof (cases rule: add_ev_InrD)
  case (1 ev)
  have "objs s' = objs s" using 1(4) by simp
  then show ?thesis using assms(2) by (rule queues_empty_objs)
next
  case (2 ev)
  have "objs s' = objs s" using 2(3) by simp
  then show ?thesis using assms(2) by (rule queues_empty_objs)
qed

lemma apply_op_queues_empty:
  assumes "apply_op pf x s = Inr s'" and "queues_empty s"
  shows "queues_empty s'"
proof (cases x)
  case (op_add_ev this numCPU port)
  with assms(1) obtain ok where "add_ev this numCPU port s = Inr (ok, s')"
    by (auto split: sum.splits)
  then show ?thesis using assms(2) by (rule add_ev_queues_empty)
next
  case (op_queue_write now this dat)
  with assms(1) obtain ok where "queue_write pf now this dat s = Inr (ok, s')"
    by (auto split: sum.splits)
  then show ?thesis using assms(2) by (rule queue_write_queues_empty)
next
  case (op_wake j now)
  with assms show ?thesis by (simp add: wake_queues_empty)
qed

lemma run_ops_queues_empty:
  "run_ops pf xs s = Inr s' \<Longrightarrow> queues_empty s \<Longrightarrow> queues_empty s'"
proof (induction xs arbitrary: s)
  case Nil
  then show ?case by simp
next
  case (Cons x xs)
  from Cons.prems(1) obtain s1 where a: "apply_op pf x s = Inr s1" and r: "run_ops pf xs s1 = Inr s'"
    by (auto split: sum.splits)
  from a Cons.prems(2) have "queues_empty s1" by (rule apply_op_queues_empty)
  with r show ?case by (rule Cons.IH)
qed

lemma ex_queue_write_oversize:
  "queue_write ex_pf 7 4096 (replicate 2049 0) ex_s1 = Inr (True, ex_s2_oversize)"
  by (simp add: queue_write_def flush_write_def ex_s1_def ex_s2_oversize_def ex_ev_def ex_cfg_def
      Emplace_def MaxSize_def PutTime_def WriteBuffer_ctor_def ex_Process
      emit_def do_write_def new_pkt_def)
    (simp add: ex_pf_def)

lemma ex_queues_empty: "queues_empty ex_s1"
  by (simp add: queues_empty_def ex_s1_def ex_ev_def)

lemma stays_deletedI:
  "a < next_pkt s' \<Longrightarrow> a \<notin> fst ` set (pkts s') \<Longrightarrow> trace s' = trace s @ evs \<Longrightarrow>
   delete_pkt a \<notin> set evs \<Longrightarrow> stays_deleted a s s'"
  by (simp add: stays_deleted_def dead_def)

lemma stays_deletedD:
  assumes "stays_deleted a s s'"
  obtains evs where "dead a s'" and "trace s' = trace s @ evs" and "delete_pkt a \<notin> set evs"
  using assms unfolding stays_deleted_def by blast

lemma stays_deleted_refl: "dead a s \<Longrightarrow> stays_deleted a s s"
  by (simp add: stays_deleted_def)

lemma stays_deleted_trans:
  assumes "stays_deleted a s s'" and "stays_deleted a s' s''"
  shows "stays_deleted a s s''"
proof -
  from assms(1) obtain e1 where 1: "trace s' = trace s @ e1" "delete_pkt a \<notin> set e1"
    by (rule stays_deletedD)
  from assms(2) obtain e2 where 2: "dead a s''" "trace s'' = trace s' @ e2" "delete_pkt a \<notin> set e2"
    by (rule stays_deletedD)
  show ?thesis
  proof (rule stays_deletedI)
    show "trace s'' = trace s @ (e1 @ e2)" using 1(1) 2(2) by simp
    show "delete_pkt a \<notin> set (e1 @ e2)" using 1(2) 2(3) by simp
  qed (use 2(1) in \<open>simp_all add: dead_def\<close>)
qed

lemma write_events_no_delete_pkt: "delete_pkt a \<notin> set (write_events h b out)"
  by (induction out arbitrary: b) auto

lemma write_pkts_above: "a < b \<Longrightarrow> a \<notin> fst ` set (write_pkts h b out)"
  by (induction out arbitrary: b) auto

lemma spawn_no_delete_pkt: "delete_pkt a \<notin> set (map (\<lambda>k. CreateThread (nat k)) ks)"
  by auto

lemma map_of_in_fst: "map_of xs a = Some v \<Longrightarrow> a \<in> fst ` set xs"
  by (metis map_of_eq_None_iff option.distinct(1))

lemma body_stays_deleted:
  assumes "tun_ev_body pf now r s = Inr (left, s')" and "dead a s"
  shows "stays_deleted a s s'"
  using assms(1)
proof (cases rule: tun_ev_body_InrD)
  case 1
  with assms(2) show ?thesis by (simp add: stays_deleted_refl)
next
  case (2 n ovl)
  with assms(2) show ?thesis by (simp add: stays_deleted_refl)
next
  case (3 n listener b h pkt ev)
  from 3(3) have "b \<in> fst ` set (pkts s)" by (rule map_of_in_fst)
  with assms(2) have ne: "b \<noteq> a" by (auto simp: dead_def)
  show ?thesis
  proof (rule stays_deletedI)
    show "a < next_pkt s'" using 3(7) assms(2) by (simp add: dead_def)
    show "a \<notin> fst ` set (pkts s')" using 3(7) assms(2) by (auto simp: dead_def)
    show "trace s' = trace s @ [ReadFile (tun_fd ev) (EV_READ_BUF_SZ pf) (next_pkt s), delete_pkt b]"
      using 3(7) by simp
    show "delete_pkt a \<notin> set [ReadFile (tun_fd ev) (EV_READ_BUF_SZ pf) (next_pkt s), delete_pkt b]"
      using ne by simp
  qed
next
  case (4 n listener b h pkt ev q)
  from 4(3) have "b \<in> fst ` set (pkts s)" by (rule map_of_in_fst)
  with assms(2) have ne: "b \<noteq> a" by (auto simp: dead_def)
  let ?out = "fst (Process pf now q)"
  let ?evs = "(if recvpkt (tio ev) then [hook_recvpkt listener (asio_evt_pkt.buf pkt) n] else [])
      @ (if before_write (tio ev) then [hook_before_write listener] else [])
      @ write_events (tun_fd ev) (next_pkt s) ?out
      @ [ReadFile (tun_fd ev) (EV_READ_BUF_SZ pf) (next_pkt s + length ?out), delete_pkt b]"
  have fresh: "a \<notin> fst ` set (write_pkts (tun_fd ev) (next_pkt s) ?out)"
    using assms(2) by (intro write_pkts_above) (simp add: dead_def)
  show ?thesis
  proof (rule stays_deletedI)
    show "a < next_pkt s'" using 4(8) assms(2) by (simp add: dead_def)
    show "a \<notin> fst ` set (pkts s')" using 4(8) assms(2) fresh by (auto simp: dead_def)
    show "trace s' = trace s @ ?evs"
      using 4(8) by simp
    show "delete_pkt a \<notin> set ?evs"
      using ne by (simp add: write_events_no_delete_pkt)
  qed
qed

lemma wake_stays_deleted:
  assumes "wake pf j now s = Inr s'" and "dead a s"
  shows "stays_deleted a s s'"
  using assms(1)
proof (cases rule: wake_InrD)
  case 1
  with assms(2) show ?thesis by (simp add: stays_deleted_refl)
next
  case (2 c cs left s1)
  have d: "dead a (s\<lparr>port_queue := cs\<rparr>)"
    using assms(2) by (simp add: dead_def)
  from body_stays_deleted [OF 2(4) d]
  have "stays_deleted a (s\<lparr>port_queue := cs\<rparr>) s1" .
  then have k: "stays_deleted a s s1"
    by (simp add: stays_deleted_def new_events_def)
  then have d1: "dead a s1" by (simp add: stays_deleted_def)
  have "stays_deleted a s1 s'"
  proof (cases left)
    case False
    with 2(5) d1 show ?thesis by (simp add: stays_deleted_refl)
  next
    case True
    show ?thesis
    proof (rule stays_deletedI)
      show "trace s' = trace s1 @ [thread_exit j]" using 2(5) True by simp
    qed (use 2(5) True d1 in \<open>simp_all add: dead_def\<close>)
  qed
  with k show ?thesis by (rule stays_deleted_trans)
qed

lemma queue_write_stays_deleted:
  assumes "queue_write pf now this dat s = Inr (ok, s')" and "dead a s"
  shows "stays_deleted a s s'"
  using assms(1)
proof (cases rule: queue_write_InrD)
  case 1
  with assms(2) show ?thesis by (simp add: stays_deleted_refl)
next
  case (2 ev q)
  let ?out = "fst (Process pf now (Emplace pf now dat q))"
  have fresh: "a \<notin> fst ` set (write_pkts (tun_fd ev) (next_pkt s) ?out)"
    using assms(2) by (intro write_pkts_above) (simp add: dead_def)
  show ?thesis
  proof (rule stays_deletedI)
    show "a < next_pkt s'" using 2(4) assms(2) by (simp add: dead_def)
    show "a \<notin> fst ` set (pkts s')" using 2(4) assms(2) fresh by (auto simp: dead_def)
    show "trace s' = trace s @ (if before_write (tio ev) then [hook_before_write this] else [])
       @ write_events (tun_fd ev) (next_pkt s) ?out"
      using 2(4) by simp
    show "delete_pkt a \<notin> set ((if before_write (tio ev) then [hook_before_write this] else [])
       @ write_events (tun_fd ev) (next_pkt s) ?out)"
      by (simp add: write_events_no_delete_pkt)
  qed
qed

lemma add_ev_stays_deleted:
  assumes "add_ev this numCPU port s = Inr (ok, s')" and "dead a s"
  shows "stays_deleted a s s'"
  using assms(1)
proof (cases rule: add_ev_InrD)
  case (1 ev)
  show ?thesis
  proof (rule stays_deletedI)
    show "a < next_pkt s'" using 1(4) assms(2) by (simp add: dead_def)
    show "a \<notin> fst ` set (pkts s')" using 1(4) assms(2) by (auto simp: dead_def)
    show "trace s' = trace s @ [CreateIoCompletionPort (tun_fd ev) None this (numCPU * 2)]
        @ map (\<lambda>k. CreateThread (nat k)) [0..sint (numCPU * 2) - 1]
        @ [ReadFile (tun_fd ev) 4096 (next_pkt s)]"
      using 1(4) by (simp add: spawn_trace)
    show "delete_pkt a \<notin> set ([CreateIoCompletionPort (tun_fd ev) None this (numCPU * 2)]
        @ map (\<lambda>k. CreateThread (nat k)) [0..sint (numCPU * 2) - 1]
        @ [ReadFile (tun_fd ev) 4096 (next_pkt s)])"
      by auto
  qed
next
  case (2 ev)
  show ?thesis
  proof (rule stays_deletedI)
    show "a < next_pkt s'" using 2(3) assms(2) by (simp add: dead_def)
    show "a \<notin> fst ` set (pkts s')" using 2(3) assms(2) by (auto simp: dead_def)
    show "trace s' = trace s
        @ [CreateIoCompletionPort (tun_fd ev) (Some (tun_event_queue s)) this 0,
           ReadFile (tun_fd ev) 4096 (next_pkt s)]"
      using 2(3) by simp
    show "delete_pkt a \<notin> set [CreateIoCompletionPort (tun_fd ev) (Some (tun_event_queue s)) this 0,
           ReadFile (tun_fd ev) 4096 (next_pkt s)]"
      by simp
  qed
qed

lemma apply_op_stays_deleted:
  assumes "apply_op pf x s = Inr s'" and "dead a s"
  shows "stays_deleted a s s'"
proof (cases x)
  case (op_add_ev this numCPU port)
  with assms(1) obtain ok where "add_ev this numCPU port s = Inr (ok, s')"
    by (auto split: sum.splits)
  then show ?thesis using assms(2) by (rule add_ev_stays_deleted)
next
  case (op_queue_write now this dat)
  with assms(1) obtain ok where "queue_write pf now this dat s = Inr (ok, s')"
    by (auto split: sum.splits)
  then show ?thesis using assms(2) by (rule queue_write_stays_deleted)
next
  case (op_wake j now)
  with assms show ?thesis by (simp add: wake_stays_deleted)
qed

lemma run_ops_stays_deleted:
  "run_ops pf xs s = Inr s' \<Longrightarrow> dead a s \<Longrightarrow> stays_deleted a s s'"
proof (induction xs arbitrary: s)
  case Nil
  then show ?case by (simp add: stays_deleted_refl)
next
  case (Cons x xs)
  from Cons.prems(1) obtain s1 where a: "apply_op pf x s = Inr s1" and r: "run_ops pf xs s1 = Inr s'"
    by (auto split: sum.splits)
  from a Cons.prems(2) have k: "stays_deleted a s s1" by (rule apply_op_stays_deleted)
  then have "dead a s1" by (simp add: stays_deleted_def)
  with r have "stays_deleted a s1 s'" by (rule Cons.IH)
  with k show ?case by (rule stays_deleted_trans)
qed

lemma is_delete_pkt_simps [simp]:
  "\<not> is_delete_pkt (hook_before_write k)"
  "\<not> is_delete_pkt (hook_recvpkt k b n)"
  "\<not> is_delete_pkt (ReadFile h n a)"
  "is_delete_pkt (delete_pkt a)"
  by (simp_all add: is_delete_pkt_def)

lemma wake_completion:
  assumes "j < length (kThreadPool s)" and "kThreadPool s ! j = Running"
    and "port_queue s = c # cs"
    and "tun_ev_body pf now (Some c) (s\<lparr>port_queue := cs\<rparr>) = Inr (False, s1)"
  shows "wake pf j now s = Inr s1"
  using assms by (simp add: wake_def)

lemma ex_wake_write_completion:
  "wake ex_pf 0 8 (ex_s2\<lparr>port_queue := [(3, 4096, Some 1)]\<rparr>) = Inr ex_s3"
proof -
  have "(ex_s2\<lparr>port_queue := [(3, 4096, Some 1)]\<rparr>)\<lparr>port_queue := []\<rparr> = ex_s2"
    by (simp add: ex_s2_def)
  then have "tun_ev_body ex_pf 8 (Some (3, 4096, Some 1))
      ((ex_s2\<lparr>port_queue := [(3, 4096, Some 1)]\<rparr>)\<lparr>port_queue := []\<rparr>) = Inr (False, ex_s3)"
    by (simp only: ex_write_completion)
  then show ?thesis
    by (intro wake_completion) (simp_all add: ex_s2_def)
qed

lemma is_ReadFile_simps [simp]:
  "\<not> is_ReadFile (hook_before_write k)"
  "\<not> is_ReadFile (hook_recvpkt k b n)"
  "is_ReadFile (ReadFile h n a)"
  "\<not> is_ReadFile (delete_pkt a)"
  "\<not> is_ReadFile (CreateIoCompletionPort h p k w)"
  "\<not> is_ReadFile (CreateThread j)"
  by (simp_all add: is_ReadFile_def)

lemma filter_without:
  assumes "distinct (map fst xs)" and "map_of xs a = Some v"
  shows "length (filter P (filter (\<lambda>e. fst e \<noteq> a) xs)) =
    length (filter P xs) - (if P (a, v) then 1 else 0)"
  using assms
proof (induction xs)
  case Nil
  then show ?case by simp
next
  case (Cons x xs)
  obtain b w where x: "x = (b, w)" by (cases x)
  show ?case
  proof (cases "b = a")
    case True
    with Cons.prems x have v: "w = v" by simp
    from Cons.prems(1) x True have "a \<notin> fst ` set xs" by simp
    then have "filter (\<lambda>e. fst e \<noteq> a) xs = xs"
      by (intro filter_True) auto
    with x True v show ?thesis by simp
  next
    case False
    with Cons.prems x have m: "map_of xs a = Some v" by simp
    from Cons.prems(1) have "distinct (map fst xs)" by simp
    from Cons.IH [OF this m]
    have ih: "length (filter P (filter (\<lambda>e. fst e \<noteq> a) xs)) =
        length (filter P xs) - (if P (a, v) then 1 else 0)" .
    from m have "(a, v) \<in> set xs" by (rule map_of_SomeD)
    then have pos: "P (a, v) \<Longrightarrow> 0 < length (filter P xs)"
      by (auto simp: filter_empty_conv)
    show ?thesis
      using x False ih pos by (cases "P (a, v)") auto
  qed
qed

lemma write_pkts_keep:
  "a < b \<Longrightarrow> filter (\<lambda>e. fst e \<noteq> a) (write_pkts h b out) = write_pkts h b out"
  by (induction out arbitrary: b) auto

lemma count_after_free:
  fixes xs :: "(nat \<times> HANDLE \<times> asio_evt_pkt) list"
  assumes "distinct (map fst xs)" and "map_of xs a = Some (h, pkt)" and "a \<noteq> b"
  shows "length (filter (\<lambda>e. fst (snd e) = h \<and> \<not> write (snd (snd e)))
           (filter (\<lambda>e. fst e \<noteq> a)
              (xs @ ws @ [(b, h, \<lparr>write = False, sz = n, buf = r\<rparr>)]))) =
    length (filter (\<lambda>e. fst (snd e) = h \<and> \<not> write (snd (snd e))) xs)
      - (if write pkt then 0 else 1)
      + length (filter (\<lambda>e. fst (snd e) = h \<and> \<not> write (snd (snd e)))
           (filter (\<lambda>e. fst e \<noteq> a) ws))
      + 1"
proof -
  let ?P = "\<lambda>e :: nat \<times> HANDLE \<times> asio_evt_pkt. fst (snd e) = h \<and> \<not> write (snd (snd e))"
  have "length (filter ?P (filter (\<lambda>e. fst e \<noteq> a) xs)) =
      length (filter ?P xs) - (if ?P (a, h, pkt) then 1 else 0)"
    using assms(1,2) by (rule filter_without)
  then have "length (filter ?P (filter (\<lambda>e. fst e \<noteq> a) xs)) =
      length (filter ?P xs) - (if write pkt then 0 else 1)"
    by (cases "write pkt") simp_all
  moreover have "filter ?P (filter (\<lambda>e. fst e \<noteq> a) [(b, h, \<lparr>write = False, sz = n, buf = r\<rparr>)]) =
      [(b, h, \<lparr>write = False, sz = n, buf = r\<rparr>)]"
    using assms(3) by simp
  ultimately show ?thesis
    by (simp only: filter_append length_append list.size)
qed

lemma pkts_ok_below:
  assumes "pkts_ok s" and "map_of (pkts s) a = Some v"
  shows "a < next_pkt s"
proof -
  from assms(2) have "(a, v) \<in> set (pkts s)" by (rule map_of_SomeD)
  with assms(1) show ?thesis
    by (auto simp: pkts_ok_def list_all_iff)
qed

lemma outstanding_write_completion:
  fixes s :: "'c tun_state"
  assumes "pkts_ok s" and "map_of (pkts s) a = Some (tun_fd ev, pkt)" and "write pkt"
  shows "outstanding_reads (after_completion pf this ev a s) (tun_fd ev) =
    Suc (outstanding_reads s (tun_fd ev))"
proof -
  from assms(1,2) have "a < next_pkt s" by (rule pkts_ok_below)
  then have ne: "a \<noteq> next_pkt s" by simp
  from assms(1) have d: "distinct (map fst (pkts s))" by (simp add: pkts_ok_def)
  have p: "pkts (after_completion pf this ev a s) =
      filter (\<lambda>e. fst e \<noteq> a)
        (pkts s @ [] @ [(next_pkt s, tun_fd ev,
                   \<lparr>write = False, sz = EV_READ_BUF_SZ pf, buf = readbuf_of this\<rparr>)])"
    by simp
  show ?thesis
    unfolding outstanding_reads_def p count_after_free [OF d assms(2) ne]
    using assms(3) by simp
qed

lemma outstanding_read_completion:
  fixes s :: "'c tun_state"
  assumes "pkts_ok s" and "map_of (pkts s) a = Some (tun_fd ev, pkt)" and "\<not> write pkt"
  shows "outstanding_reads
      (after_completion pf this ev a (drained pf now this ev q (recv_hooked this ev pkt n s)))
      (tun_fd ev) = outstanding_reads s (tun_fd ev)"
proof -
  let ?P = "\<lambda>e :: nat \<times> HANDLE \<times> asio_evt_pkt. fst (snd e) = tun_fd ev \<and> \<not> write (snd (snd e))"
  let ?out = "fst (Process pf now q)"
  let ?ws = "write_pkts (tun_fd ev) (next_pkt s) ?out"
  from assms(1,2) have lt: "a < next_pkt s" by (rule pkts_ok_below)
  then have ne: "a \<noteq> next_pkt s + length ?out" by simp
  from assms(1) have d: "distinct (map fst (pkts s))" by (simp add: pkts_ok_def)
  from assms(2) have mem: "(a, tun_fd ev, pkt) \<in> set (pkts s)" by (rule map_of_SomeD)
  with assms(3) have "(a, tun_fd ev, pkt) \<in> set (filter ?P (pkts s))" by simp
  then have pos: "0 < length (filter ?P (pkts s))"
    by (rule length_pos_if_in_set)
  have w: "filter ?P (filter (\<lambda>e. fst e \<noteq> a) ?ws) = []"
    using lt by (simp only: write_pkts_keep write_pkts_no_read)
  have p: "pkts (after_completion pf this ev a
        (drained pf now this ev q (recv_hooked this ev pkt n s))) =
      filter (\<lambda>e. fst e \<noteq> a)
        (pkts s @ ?ws @ [(next_pkt s + length ?out, tun_fd ev,
                   \<lparr>write = False, sz = EV_READ_BUF_SZ pf, buf = readbuf_of this\<rparr>)])"
    by simp
  show ?thesis
    unfolding outstanding_reads_def p count_after_free [OF d assms(2) ne] w
    using assms(3) pos by simp
qed

lemma threads_no_ReadFile: "filter is_ReadFile (map (\<lambda>k. CreateThread (nat k)) ks) = []"
  by (induction ks) simp_all

lemma add_ev_issues_one_read:
  fixes s :: "'c tun_state"
  assumes "add_ev this numCPU port s = Inr (ok, s')" and "objs s this = Some ev"
  shows "trace s' = trace s @ new_events s s'
    \<and> filter is_ReadFile (new_events s s') = [ReadFile (tun_fd ev) 4096 (next_pkt s)]
    \<and> outstanding_reads s' (tun_fd ev) = Suc (outstanding_reads s (tun_fd ev))"
  using assms(1)
proof (cases rule: add_ev_InrD)
  case (1 ev')
  with assms(2) have ev: "ev' = ev" by simp
  let ?evs = "[CreateIoCompletionPort (tun_fd ev) None this (numCPU * 2)]
        @ map (\<lambda>k. CreateThread (nat k)) [0..sint (numCPU * 2) - 1]
        @ [ReadFile (tun_fd ev) 4096 (next_pkt s)]"
  have t: "trace s' = trace s @ ?evs"
    using 1(4) ev by (simp add: spawn_trace)
  then have n: "new_events s s' = ?evs" by (rule new_events_append)
  have f: "filter is_ReadFile ?evs = [ReadFile (tun_fd ev) 4096 (next_pkt s)]"
    by (simp add: threads_no_ReadFile)
  have o: "outstanding_reads s' (tun_fd ev) = Suc (outstanding_reads s (tun_fd ev))"
    using 1(4) ev by (simp add: outstanding_reads_def)
  from t f o show ?thesis unfolding n by simp
next
  case (2 ev')
  with assms(2) have ev: "ev' = ev" by simp
  let ?evs = "[CreateIoCompletionPort (tun_fd ev) (Some (tun_event_queue s)) this 0,
           ReadFile (tun_fd ev) 4096 (next_pkt s)]"
  have t: "trace s' = trace s @ ?evs"
    using 2(3) ev by simp
  then have n: "new_events s s' = ?evs" by (rule new_events_append)
  have o: "outstanding_reads s' (tun_fd ev) = Suc (outstanding_reads s (tun_fd ev))"
    using 2(3) ev by (simp add: outstanding_reads_def)
  from t o show ?thesis unfolding n by simp
qed

lemma read_completion_chain:
  fixes pf :: "'c platform" and s :: "'c tun_state"
  assumes "objs s this = Some ev" and "pkts_ok s" and "this \<noteq> shutdown_key"
    and "map_of (pkts s) a = Some (tun_fd ev, pkt)" and "\<not> write pkt"
    and "m_LossyWriteQueue ev = Some q"
  shows "\<exists>s' s2. tun_ev_body pf now (Some (n, this, Some a)) s = Inr (False, s')
      \<and> flush_write pf now this
           (if recvpkt (tio ev) then emit (hook_recvpkt this (asio_evt_pkt.buf pkt) n) s else s) =
         Inr s2
      \<and> trace s' = trace s2 @ [ReadFile (tun_fd ev) (EV_READ_BUF_SZ pf) (next_pkt s2), delete_pkt a]
      \<and> trace s' = trace s @ new_events s s'
      \<and> filter is_ReadFile (new_events s s') =
           [ReadFile (tun_fd ev) (EV_READ_BUF_SZ pf) (next_pkt s2)]
      \<and> outstanding_reads s' (tun_fd ev) = outstanding_reads s (tun_fd ev)"
proof -
  let ?s1 = "recv_hooked this ev pkt n s"
  let ?s2 = "drained pf now this ev q ?s1"
  let ?s' = "after_completion pf this ev a ?s2"
  let ?out = "fst (Process pf now q)"
  let ?evs = "(if recvpkt (tio ev) then [hook_recvpkt this (asio_evt_pkt.buf pkt) n] else [])
      @ (if before_write (tio ev) then [hook_before_write this] else [])
      @ write_events (tun_fd ev) (next_pkt s) ?out
      @ [ReadFile (tun_fd ev) (EV_READ_BUF_SZ pf) (next_pkt s + length ?out), delete_pkt a]"
  have b: "tun_ev_body pf now (Some (n, this, Some a)) s = Inr (False, ?s')"
    using assms(3,4,1,5,6) by (rule tun_ev_body_read)
  have "flush_write pf now this ?s1 = Inr ?s2"
    using assms(1,6) by (intro flush_write_drained) simp_all
  then have f: "flush_write pf now this
      (if recvpkt (tio ev) then emit (hook_recvpkt this (asio_evt_pkt.buf pkt) n) s else s) = Inr ?s2"
    by (simp only: recv_hooked_def)
  have t2: "trace ?s' = trace ?s2 @ [ReadFile (tun_fd ev) (EV_READ_BUF_SZ pf) (next_pkt ?s2), delete_pkt a]"
    by simp
  have t: "trace ?s' = trace s @ ?evs"
    by simp
  then have n: "new_events s ?s' = ?evs" by (rule new_events_append)
  have r: "filter is_ReadFile ?evs = [ReadFile (tun_fd ev) (EV_READ_BUF_SZ pf) (next_pkt ?s2)]"
    by simp
  have o: "outstanding_reads ?s' (tun_fd ev) = outstanding_reads s (tun_fd ev)"
    using assms(2,4,5) by (rule outstanding_read_completion)
  have "tun_ev_body pf now (Some (n, this, Some a)) s = Inr (False, ?s')
      \<and> flush_write pf now this
           (if recvpkt (tio ev) then emit (hook_recvpkt this (asio_evt_pkt.buf pkt) n) s else s) =
         Inr ?s2
      \<and> trace ?s' = trace ?s2 @ [ReadFile (tun_fd ev) (EV_READ_BUF_SZ pf) (next_pkt ?s2), delete_pkt a]
      \<and> trace ?s' = trace s @ new_events s ?s'
      \<and> filter is_ReadFile (new_events s ?s') =
           [ReadFile (tun_fd ev) (EV_READ_BUF_SZ pf) (next_pkt ?s2)]
      \<and> outstanding_reads ?s' (tun_fd ev) = outstanding_reads s (tun_fd ev)"
    unfolding n using b f t2 t r o by (intro conjI)
  then show ?thesis by (intro exI)
qed

lemma write_completion_chain:
  fixes pf :: "'c platform" and s :: "'c tun_state"
  assumes "objs s this = Some ev" and "pkts_ok s" and "this \<noteq> shutdown_key"
    and "map_of (pkts s) a = Some (tun_fd ev, pkt)" and "write pkt"
  shows "\<exists>s'. tun_ev_body pf now (Some (n, this, Some a)) s = Inr (False, s')
      \<and> trace s' = trace s @ new_events s s'
      \<and> new_events s s' = [ReadFile (tun_fd ev) (EV_READ_BUF_SZ pf) (next_pkt s), delete_pkt a]
      \<and> outstanding_reads s' (tun_fd ev) = Suc (outstanding_reads s (tun_fd ev))"
proof -
  let ?s' = "after_completion pf this ev a s"
  let ?evs = "[ReadFile (tun_fd ev) (EV_READ_BUF_SZ pf) (next_pkt s), delete_pkt a]"
  have b: "tun_ev_body pf now (Some (n, this, Some a)) s = Inr (False, ?s')"
    using assms(3,4,1,5) by (rule tun_ev_body_write)
  have t: "trace ?s' = trace s @ ?evs"
    by simp
  then have n: "new_events s ?s' = ?evs" by (rule new_events_append)
  have o: "outstanding_reads ?s' (tun_fd ev) = Suc (outstanding_reads s (tun_fd ev))"
    using assms(2,4,5) by (rule outstanding_write_completion)
  have "tun_ev_body pf now (Some (n, this, Some a)) s = Inr (False, ?s')
      \<and> trace ?s' = trace s @ new_events s ?s'
      \<and> new_events s ?s' = ?evs
      \<and> outstanding_reads ?s' (tun_fd ev) = Suc (outstanding_reads s (tun_fd ev))"
    unfolding n using b t o by (intro conjI refl)
  then show ?thesis by (intro exI)
qed

lemma ex_pkts_ok: "pkts_ok ex_s0" "pkts_ok ex_s1" "pkts_ok ex_s2"
  by (simp_all add: pkts_ok_def ex_s0_def ex_s1_def ex_s2_def)

lemma exited_update:
  "j < length ts \<Longrightarrow> ts ! j = Running \<Longrightarrow> exited (ts[j := Exited]) = Suc (exited ts)"
proof (induction ts arbitrary: j)
  case Nil
  then show ?case by simp
next
  case (Cons t ts)
  show ?case
  proof (cases j)
    case 0
    with Cons.prems show ?thesis by (simp add: exited_def)
  next
    case (Suc k)
    with Cons.prems have "exited (ts[k := Exited]) = Suc (exited ts)"
      by (intro Cons.IH) simp_all
    with Suc show ?thesis by (simp add: exited_def)
  qed
qed

lemma exited_replicate [simp]: "exited (replicate M Running) = 0"
  by (simp add: exited_def)

lemma exited_all:
  "list_all (\<lambda>t. t = Exited) ts \<Longrightarrow> exited ts = length ts"
  by (induction ts) (simp_all add: exited_def)

lemma no_running_all_exited: "Running \<notin> set ts \<Longrightarrow> list_all (\<lambda>t. t = Exited) ts"
proof (induction ts)
  case Nil
  show ?case by simp
next
  case (Cons t ts)
  then show ?case by (cases t) simp_all
qed

lemma running_left:
  assumes "exited ts < length ts"
  shows "Running \<in> set ts"
proof (rule ccontr)
  assume "Running \<notin> set ts"
  then have "list_all (\<lambda>t. t = Exited) ts" by (rule no_running_all_exited)
  then have "exited ts = length ts" by (rule exited_all)
  with assms show False by simp
qed

lemma wake_budget:
  assumes "wake pf j now s = Inr s'"
  shows "exited (kThreadPool s') + sentinels (port_queue s') =
      exited (kThreadPool s) + sentinels (port_queue s)
    \<and> length (kThreadPool s') = length (kThreadPool s)"
  using assms
proof (cases rule: wake_InrD)
  case 1
  then show ?thesis by simp
next
  case (2 c cs left s1)
  from 2(4) show ?thesis
  proof (cases rule: tun_ev_body_InrD)
    case 1
    then show ?thesis by simp
  next
    case (2 n ovl)
    with \<open>port_queue s = c # cs\<close> \<open>s' = _\<close> \<open>j < length (kThreadPool s)\<close>
      \<open>kThreadPool s ! j = Running\<close>
    show ?thesis by (simp add: exited_update sentinels_def)
  next
    case (3 n listener a h pkt ev)
    with \<open>port_queue s = c # cs\<close> \<open>s' = _\<close>
    show ?thesis by (simp add: sentinels_def)
  next
    case (4 n listener a h pkt ev q)
    with \<open>port_queue s = c # cs\<close> \<open>s' = _\<close>
    show ?thesis by (simp add: sentinels_def)
  qed
qed

lemma run_pool_budget:
  "run_pool pf sched s = Inr s' \<Longrightarrow>
   exited (kThreadPool s') + sentinels (port_queue s') =
      exited (kThreadPool s) + sentinels (port_queue s)
    \<and> length (kThreadPool s') = length (kThreadPool s)"
proof (induction sched arbitrary: s)
  case Nil
  then show ?case by simp
next
  case (Cons x sched)
  obtain j now where x: "x = (j, now)" by (cases x)
  with Cons.prems obtain s1 where w: "wake pf j now s = Inr s1"
    and r: "run_pool pf sched s1 = Inr s'"
    by (auto split: sum.splits)
  from wake_budget [OF w] Cons.IH [OF r] show ?case by simp
qed

lemma sentinels_none:
  "list_all (\<lambda>c. fst (snd c) \<noteq> shutdown_key) cs \<Longrightarrow> sentinels cs = 0"
  by (induction cs) (simp_all add: sentinels_def)

lemma posted_budget:
  assumes "kThreadPool s = replicate M Running"
    and "list_all (\<lambda>c. fst (snd c) \<noteq> shutdown_key) (port_queue s)"
  shows "exited (kThreadPool (posted s)) + sentinels (port_queue (posted s)) = 1"
    and "length (kThreadPool (posted s)) = M"
proof -
  have "sentinels (port_queue s @ [(0, shutdown_key, None)]) = Suc (sentinels (port_queue s))"
    by (simp add: sentinels_def)
  with assms show "exited (kThreadPool (posted s)) + sentinels (port_queue (posted s)) = 1"
    by (simp add: posted_def sentinels_none)
  from assms(1) show "length (kThreadPool (posted s)) = M"
    by (simp add: posted_def)
qed

lemma dtor_InrD:
  assumes "win32_tun_io_dtor k s = Inr s'"
  shows "kThreadPool s' = kThreadPool s \<and> tun_event_queue s' = tun_event_queue s
    \<and> (\<exists>evs. trace s' = trace s @ evs @ [delete_listener k])"
proof (cases "objs s k")
  case None
  with assms show ?thesis by (simp add: win32_tun_io_dtor_def)
next
  case (Some ev)
  show ?thesis
  proof (cases "tun_fd ev = 0")
    case True
    with Some assms have s': "s' = emit (delete_listener k)
        ((emit (driver (CancelIo (tun_fd ev))) s)\<lparr>objs := (objs s)(k := None)\<rparr>)"
      by (simp add: win32_tun_io_dtor_def Let_def)
    have "trace s' = trace s @ [driver (CancelIo (tun_fd ev))] @ [delete_listener k]"
      unfolding s' by simp
    then have "\<exists>evs. trace s' = trace s @ evs @ [delete_listener k]" by (rule exI)
    moreover have "kThreadPool s' = kThreadPool s" "tun_event_queue s' = tun_event_queue s"
      unfolding s' by simp_all
    ultimately show ?thesis by simp
  next
    case False
    with Some assms have s': "s' = emit (delete_listener k)
        ((emit (driver tuntap_destroy) (emit (driver (CancelIo (tun_fd ev))) s))
           \<lparr>objs := (objs s)(k := None)\<rparr>)"
      by (simp add: win32_tun_io_dtor_def Let_def)
    have "trace s' = trace s @ [driver (CancelIo (tun_fd ev)), driver tuntap_destroy]
        @ [delete_listener k]"
      unfolding s' by simp
    then have "\<exists>evs. trace s' = trace s @ evs @ [delete_listener k]" by (rule exI)
    moreover have "kThreadPool s' = kThreadPool s" "tun_event_queue s' = tun_event_queue s"
      unfolding s' by simp_all
    ultimately show ?thesis by simp
  qed
qed

lemma release_listeners_effect:
  "release_listeners ks s = Inr s' \<Longrightarrow>
   kThreadPool s' = kThreadPool s \<and> set (trace s) \<subseteq> set (trace s')
   \<and> delete_listener ` set ks \<subseteq> set (trace s')"
proof (induction ks arbitrary: s)
  case Nil
  then show ?case by simp
next
  case (Cons k ks)
  from Cons.prems obtain s1 where d: "win32_tun_io_dtor k s = Inr s1"
    and r: "release_listeners ks (s1\<lparr>tun_listeners := ks\<rparr>) = Inr s'"
    by (auto split: sum.splits)
  from dtor_InrD [OF d] obtain evs where p: "kThreadPool s1 = kThreadPool s"
    and t: "trace s1 = trace s @ evs @ [delete_listener k]"
    by blast
  from Cons.IH [OF r] have ih: "kThreadPool s' = kThreadPool s1"
    "set (trace s1) \<subseteq> set (trace s')" "delete_listener ` set ks \<subseteq> set (trace s')"
    by simp_all
  have "delete_listener k \<in> set (trace s1)" "set (trace s) \<subseteq> set (trace s1)"
    unfolding t by auto
  with ih p show ?case by auto
qed

lemma wake_listeners:
  assumes "wake pf j now s = Inr s'"
  shows "tun_listeners s' = tun_listeners s"
  using assms
proof (cases rule: wake_InrD)
  case 1
  then show ?thesis by simp
next
  case (2 c cs left s1)
  from 2(4) have "tun_listeners s1 = tun_listeners s"
    by (cases rule: tun_ev_body_InrD) simp_all
  with 2(5) show ?thesis by simp
qed

lemma run_pool_listeners:
  "run_pool pf sched s = Inr s' \<Longrightarrow> tun_listeners s' = tun_listeners s"
proof (induction sched arbitrary: s)
  case Nil
  then show ?case by simp
next
  case (Cons x sched)
  obtain j now where x: "x = (j, now)" by (cases x)
  with Cons.prems obtain s1 where w: "wake pf j now s = Inr s1"
    and r: "run_pool pf sched s1 = Inr s'"
    by (auto split: sum.splits)
  from wake_listeners [OF w] Cons.IH [OF r] show ?case by simp
qed

lemma close_handles_sel [simp]:
  "kThreadPool (fold (\<lambda>j. emit (CloseHandle_thread j)) js s) = kThreadPool s"
  "tun_listeners (fold (\<lambda>j. emit (CloseHandle_thread j)) js s) = tun_listeners s"
  by (induction js arbitrary: s; simp)+

lemma exit_tun_loop_posted:
  "exit_tun_loop pf i sched s =
     (case run_pool pf sched (posted s) of
        Inl f \<Rightarrow> Crashed f
      | Inr s2 \<Rightarrow>
          if list_all (\<lambda>t. t = Exited) (take i (kThreadPool s2)) then
            (case release_listeners (tun_listeners s2)
                    (fold (\<lambda>j. emit (CloseHandle_thread j)) [0..<i]
                       (emit (WaitForMultipleObjects i) s2)) of
               Inl f \<Rightarrow> Crashed f
             | Inr s4 \<Rightarrow> Returned (emit (CloseHandle_queue (tun_event_queue s4)) s4))
          else Blocked)"
  by (simp add: exit_tun_loop_def posted_def Let_def split: sum.splits)

lemma posted_run:
  fixes s :: "'c tun_state"
  assumes "kThreadPool s = replicate M Running" and "2 \<le> M"
    and "list_all (\<lambda>c. fst (snd c) \<noteq> shutdown_key) (port_queue s)"
    and "run_pool pf sched (posted s) = Inr s2"
  shows "exited (kThreadPool s2) \<le> 1" and "length (kThreadPool s2) = M"
    and "Running \<in> set (kThreadPool s2)" and "tun_listeners s2 = tun_listeners s"
proof -
  from run_pool_budget [OF assms(4)] posted_budget [OF assms(1,3)]
  have b: "exited (kThreadPool s2) + sentinels (port_queue s2) = 1"
    and l: "length (kThreadPool s2) = M"
    by simp_all
  from b show e: "exited (kThreadPool s2) \<le> 1" by simp
  from l show "length (kThreadPool s2) = M" .
  from e l assms(2) have "exited (kThreadPool s2) < length (kThreadPool s2)" by simp
  then show "Running \<in> set (kThreadPool s2)" by (rule running_left)
  from run_pool_listeners [OF assms(4)] show "tun_listeners s2 = tun_listeners s"
    by (simp add: posted_def)
qed

lemma ex_posted_run:
  "run_pool ex_pf [(0, 1), (1, 2), (0, 3)] (posted ex_s1) =
     Inr (emit (thread_exit 0)
            ((posted ex_s1)\<lparr>port_queue := [], kThreadPool := [Exited, Running]\<rparr>))"
proof -
  let ?s = "emit (thread_exit 0) ((posted ex_s1)\<lparr>port_queue := [], kThreadPool := [Exited, Running]\<rparr>)"
  have 1: "wake ex_pf 0 1 (posted ex_s1) = Inr ?s"
    using wake_sentinel [of 0 "posted ex_s1" 0 None "[]" ex_pf 1]
    by (simp add: posted_def ex_s1_def)
  have "port_queue ?s = []" by simp
  then have 2: "wake ex_pf 1 2 ?s = Inr ?s" "wake ex_pf 0 3 ?s = Inr ?s"
    by (simp_all add: wake_timeout)
  from 1 2 show ?thesis by simp
qed

lemma ex_exit_blocked: "exit_tun_loop ex_pf 2 [(0, 1), (1, 2), (0, 3)] ex_s1 = Blocked"
  unfolding exit_tun_loop_posted ex_posted_run by simp

lemma ex_exit_returned: "exit_tun_loop ex_pf 1 [(0, 1), (1, 2), (0, 3)] ex_s1 = Returned ex_s1_exit"
  unfolding exit_tun_loop_posted ex_posted_run
  by (simp add: posted_def ex_s1_def ex_s1_exit_def win32_tun_io_dtor_def ex_ev_def emit_def
      Let_def)

lemma is_sys_simps [simp]:
  "is_sys (sys x)"
  "\<not> is_sys (WSASetLastError n)"
  "\<not> is_sys (hook_connected k)"
  "\<not> is_sys (hook_error k)"
  by (simp_all add: is_sys_def)

section \<open>Properties\<close>

subsection \<open>Shutdown\<close>

text \<open>
  Claim C1.  The claim asks that every thread of the pool takes a shutdown
  packet and ends before an endpoint is released.  The code posts one packet
  only, and a packet is handed to one thread.  For a pool of \<open>M\<close> threads, two
  at least, all running, and a port that holds no shutdown packet:
  whatever the threads do after the post, at most one of them ends and one
  that still runs is left; a wait on all \<open>M\<close> threads does not return; and
  when \<open>exit_tun_loop\<close> returns, because its wait covered fewer threads, every
  listener is destroyed while a thread of the pool still runs.
\<close>

theorem exit_tun_loop_one_sentinel:
  fixes pf :: "'c platform" and s :: "'c tun_state"
  assumes "kThreadPool s = replicate M Running" and "2 \<le> M"
    and "list_all (\<lambda>c. fst (snd c) \<noteq> shutdown_key) (port_queue s)"
  shows "(\<forall>s2. run_pool pf sched (posted s) = Inr s2 \<longrightarrow>
        exited (kThreadPool s2) \<le> 1 \<and> length (kThreadPool s2) = M
        \<and> Running \<in> set (kThreadPool s2))
    \<and> (M \<le> i \<longrightarrow>
        exit_tun_loop pf i sched s = Blocked \<or> (\<exists>f. exit_tun_loop pf i sched s = Crashed f))
    \<and> (\<forall>s'. exit_tun_loop pf i sched s = Returned s' \<longrightarrow>
        Running \<in> set (kThreadPool s')
        \<and> delete_listener ` set (tun_listeners s) \<subseteq> set (trace s'))"
proof (intro conjI allI impI)
  fix s2 :: "'c tun_state"
  assume r: "run_pool pf sched (posted s) = Inr s2"
  from posted_run [OF assms r]
  show "exited (kThreadPool s2) \<le> 1" and "length (kThreadPool s2) = M"
    and "Running \<in> set (kThreadPool s2)"
    by simp_all
next
  assume i: "M \<le> i"
  show "exit_tun_loop pf i sched s = Blocked \<or> (\<exists>f. exit_tun_loop pf i sched s = Crashed f)"
  proof (cases "run_pool pf sched (posted s)")
    case (Inl f)
    then show ?thesis by (simp add: exit_tun_loop_posted)
  next
    case (Inr s2)
    from posted_run [OF assms Inr]
    have l: "length (kThreadPool s2) = M" and ru: "Running \<in> set (kThreadPool s2)"
      by simp_all
    from l i have "take i (kThreadPool s2) = kThreadPool s2" by simp
    with ru have "\<not> list_all (\<lambda>t. t = Exited) (take i (kThreadPool s2))"
      by (auto simp: list_all_iff)
    with Inr show ?thesis by (simp add: exit_tun_loop_posted)
  qed
next
  fix s' :: "'c tun_state"
  assume ret: "exit_tun_loop pf i sched s = Returned s'"
  then obtain s2 where r: "run_pool pf sched (posted s) = Inr s2"
    by (cases "run_pool pf sched (posted s)") (simp_all add: exit_tun_loop_posted)
  let ?s3 = "fold (\<lambda>j. emit (CloseHandle_thread j)) [0..<i] (emit (WaitForMultipleObjects i) s2)"
  from ret r obtain s4 where rel: "release_listeners (tun_listeners s2) ?s3 = Inr s4"
    and s': "s' = emit (CloseHandle_queue (tun_event_queue s4)) s4"
    by (cases "release_listeners (tun_listeners s2) ?s3")
      (auto simp: exit_tun_loop_posted split: if_splits)
  from posted_run [OF assms r]
  have ru: "Running \<in> set (kThreadPool s2)" and li: "tun_listeners s2 = tun_listeners s"
    by simp_all
  from release_listeners_effect [OF rel]
  have p: "kThreadPool s4 = kThreadPool ?s3"
    and d: "delete_listener ` set (tun_listeners s2) \<subseteq> set (trace s4)"
    by simp_all
  from p ru show "Running \<in> set (kThreadPool s')"
    unfolding s' by simp
  from d li show "delete_listener ` set (tun_listeners s) \<subseteq> set (trace s')"
    unfolding s' by auto
qed

theorem exit_tun_loop_one_sentinel_witness:
  "exit_tun_loop ex_pf 2 [(0, 1), (1, 2), (0, 3)] ex_s1 = Blocked
   \<and> exit_tun_loop ex_pf 1 [(0, 1), (1, 2), (0, 3)] ex_s1 = Returned ex_s1_exit
   \<and> kThreadPool ex_s1_exit = [Exited, Running]
   \<and> Running \<in> set (kThreadPool ex_s1_exit)
   \<and> delete_listener 4096 \<in> set (trace ex_s1_exit)"
proof -
  have h: "kThreadPool ex_s1 = replicate 2 Running" "(2 :: nat) \<le> 2"
    "list_all (\<lambda>c. fst (snd c) \<noteq> shutdown_key) (port_queue ex_s1)"
    by (simp_all add: ex_s1_def numeral_2_eq_2)
  note two = exit_tun_loop_one_sentinel [OF h, of ex_pf "[(0, 1), (1, 2), (0, 3)]" 2]
  note one = exit_tun_loop_one_sentinel [OF h, of ex_pf "[(0, 1), (1, 2), (0, 3)]" 1]
  from two have "exit_tun_loop ex_pf 2 [(0, 1), (1, 2), (0, 3)] ex_s1 = Blocked
      \<or> (\<exists>f. exit_tun_loop ex_pf 2 [(0, 1), (1, 2), (0, 3)] ex_s1 = Crashed f)"
    by blast
  with ex_exit_blocked have a: "exit_tun_loop ex_pf 2 [(0, 1), (1, 2), (0, 3)] ex_s1 = Blocked"
    by simp
  from one ex_exit_returned
  have b: "Running \<in> set (kThreadPool ex_s1_exit)
      \<and> delete_listener ` set (tun_listeners ex_s1) \<subseteq> set (trace ex_s1_exit)"
    by blast
  then have c: "delete_listener 4096 \<in> set (trace ex_s1_exit)"
    by (simp add: ex_s1_def)
  have d: "kThreadPool ex_s1_exit = [Exited, Running]"
    by (simp add: ex_s1_exit_def)
  from a ex_exit_returned b c d show ?thesis by simp
qed

subsection \<open>Release of the request record\<close>



subsection \<open>Read chaining\<close>




subsection \<open>Creation of the port and of the worker pool\<close>

text \<open>
  Claim C4.  For an endpoint that is alive: when \<open>tun_event_queue\<close> is still
  \<open>INVALID_HANDLE_VALUE\<close> (and twice the processor count fits an \<open>int\<close>),
  \<open>add_ev\<close> creates the port and starts exactly twice the processor count of
  threads; when \<open>tun_event_queue\<close> is set, \<open>add_ev\<close> only associates the
  descriptor with the existing port and issues its read, starting no thread;
  and from a state in which the port is set, no run of registrations, queued
  writes and worker passes changes the port or the number of threads, or
  creates a thread.
\<close>

theorem add_ev_pool_fixed:
  fixes pf :: "'c platform" and s :: "'c tun_state"
  assumes "objs s this = Some ev"
  shows "(tun_event_queue s = INVALID_HANDLE_VALUE \<and> unat numCPU < 2 ^ 30 \<longrightarrow>
      (\<exists>s'. add_ev this numCPU port s = Inr (True, s')
         \<and> tun_event_queue s' = port
         \<and> kThreadPool s' = replicate (2 * unat numCPU) Running
         \<and> trace s' = trace s
              @ [CreateIoCompletionPort (tun_fd ev) None this (numCPU * 2)]
              @ map CreateThread [0..<2 * unat numCPU]
              @ [ReadFile (tun_fd ev) 4096 (next_pkt s)]))
    \<and> (tun_event_queue s \<noteq> INVALID_HANDLE_VALUE \<longrightarrow>
      (\<exists>s'. add_ev this numCPU port s = Inr (True, s')
         \<and> tun_event_queue s' = tun_event_queue s
         \<and> kThreadPool s' = kThreadPool s
         \<and> trace s' = trace s
              @ [CreateIoCompletionPort (tun_fd ev) (Some (tun_event_queue s)) this 0,
                 ReadFile (tun_fd ev) 4096 (next_pkt s)]))
    \<and> (\<forall>xs s'. tun_event_queue s \<noteq> INVALID_HANDLE_VALUE \<and> run_ops pf xs s = Inr s' \<longrightarrow>
         tun_event_queue s' = tun_event_queue s
         \<and> length (kThreadPool s') = length (kThreadPool s)
         \<and> trace s' = trace s @ new_events s s'
         \<and> filter is_CreateThread (new_events s s') = [])"
proof -
  have 1: "tun_event_queue s = INVALID_HANDLE_VALUE \<and> unat numCPU < 2 ^ 30 \<longrightarrow>
      (\<exists>s'. add_ev this numCPU port s = Inr (True, s')
         \<and> tun_event_queue s' = port
         \<and> kThreadPool s' = replicate (2 * unat numCPU) Running
         \<and> trace s' = trace s
              @ [CreateIoCompletionPort (tun_fd ev) None this (numCPU * 2)]
              @ map CreateThread [0..<2 * unat numCPU]
              @ [ReadFile (tun_fd ev) 4096 (next_pkt s)])"
    using add_ev_first_effect [OF assms, of numCPU port] by blast
  have 2: "tun_event_queue s \<noteq> INVALID_HANDLE_VALUE \<longrightarrow>
      (\<exists>s'. add_ev this numCPU port s = Inr (True, s')
         \<and> tun_event_queue s' = tun_event_queue s
         \<and> kThreadPool s' = kThreadPool s
         \<and> trace s' = trace s
              @ [CreateIoCompletionPort (tun_fd ev) (Some (tun_event_queue s)) this 0,
                 ReadFile (tun_fd ev) 4096 (next_pkt s)])"
    using add_ev_later_effect [OF assms, of numCPU port] by blast
  have 3: "\<forall>xs s'. tun_event_queue s \<noteq> INVALID_HANDLE_VALUE \<and> run_ops pf xs s = Inr s' \<longrightarrow>
         tun_event_queue s' = tun_event_queue s
         \<and> length (kThreadPool s') = length (kThreadPool s)
         \<and> trace s' = trace s @ new_events s s'
         \<and> filter is_CreateThread (new_events s s') = []"
  proof (intro allI impI)
    fix xs and s' :: "'c tun_state"
    assume "tun_event_queue s \<noteq> INVALID_HANDLE_VALUE \<and> run_ops pf xs s = Inr s'"
    then have "pool_kept s s'"
      using run_ops_pool_kept [of pf xs s s'] by blast
    then show "tun_event_queue s' = tun_event_queue s
         \<and> length (kThreadPool s') = length (kThreadPool s)
         \<and> trace s' = trace s @ new_events s s'
         \<and> filter is_CreateThread (new_events s s') = []"
      unfolding pool_kept_def .
  qed
  from 1 2 3 show ?thesis by (intro conjI)
qed

theorem add_ev_pool_fixed_witness:
  "(\<exists>s'. add_ev 4096 1 9 ex_s0 = Inr (True, s') \<and> tun_event_queue s' = 9
        \<and> kThreadPool s' = [Running, Running])
   \<and> (\<exists>s'. add_ev 4096 1 9 ex_s1 = Inr (True, s') \<and> tun_event_queue s' = 9
        \<and> kThreadPool s' = [Running, Running])
   \<and> length (kThreadPool ex_s2) = 2
   \<and> filter is_CreateThread (new_events ex_s1 ex_s2) = []"
proof -
  have q0: "tun_event_queue ex_s0 = INVALID_HANDLE_VALUE \<and> unat (1 :: 32 word) < 2 ^ 30"
    by (simp add: ex_s0_def)
  have q1: "tun_event_queue ex_s1 \<noteq> INVALID_HANDLE_VALUE"
    by (simp add: ex_s1_def INVALID_HANDLE_VALUE_def)
  have r: "tun_event_queue ex_s1 \<noteq> INVALID_HANDLE_VALUE
      \<and> run_ops ex_pf [op_queue_write 7 4096 [1, 2, 3]] ex_s1 = Inr ex_s2"
    using q1 by (simp add: ex_queue_write)
  have two: "replicate (2 * unat (1 :: 32 word)) Running = [Running, Running]"
    by (simp add: numeral_2_eq_2)
  note first = add_ev_pool_fixed [OF ex_objs(1), of 1 9 ex_pf]
  note later = add_ev_pool_fixed [OF ex_objs(2), of 1 9 ex_pf]
  from first q0 have a: "\<exists>s'. add_ev 4096 1 9 ex_s0 = Inr (True, s') \<and> tun_event_queue s' = 9
        \<and> kThreadPool s' = [Running, Running]"
    unfolding two by blast
  from later q1 have b: "\<exists>s'. add_ev 4096 1 9 ex_s1 = Inr (True, s')
        \<and> tun_event_queue s' = tun_event_queue ex_s1 \<and> kThreadPool s' = kThreadPool ex_s1"
    by blast
  from later r have c: "length (kThreadPool ex_s2) = length (kThreadPool ex_s1)
      \<and> filter is_CreateThread (new_events ex_s1 ex_s2) = []"
    by blast
  from a b c show ?thesis
    by (simp add: ex_s1_def)
qed

subsection \<open>Outcomes of \<open>tcp_conn::connect\<close>\<close>




subsection \<open>\<open>tcp_connect\<close> to a peer that refuses\<close>




subsection \<open>UDP send\<close>

text \<open>
  Claim C7.  \<open>udp_listener::sendto\<close> with a destination whose family is
  neither IPv4 nor IPv6 returns -1 and makes no system call; for an IPv4
  destination it makes exactly one system \<open>sendto\<close>, with the length of
  \<open>sockaddr_in\<close>, for an IPv6 destination exactly one with the length of
  \<open>sockaddr_in6\<close>, and returns what the system answered.
\<close>

theorem udp_sendto_family:
  "(sa_family to \<noteq> AF_INET \<and> sa_family to \<noteq> AF_INET6 \<longrightarrow>
      udp_listener_sendto sent sock to dat n = (- 1, []))
   \<and> (sa_family to = AF_INET \<longrightarrow>
      udp_listener_sendto sent sock to dat n =
        (sent, [sys_sendto sock dat n to sizeof_sockaddr_in]))
   \<and> (sa_family to = AF_INET6 \<longrightarrow>
      udp_listener_sendto sent sock to dat n =
        (sent, [sys_sendto sock dat n to sizeof_sockaddr_in6]))"
  by (simp add: udp_listener_sendto_def udp_slen_def AF_INET_def AF_INET6_def)

theorem udp_sendto_family_witness:
  "udp_listener_sendto 5 3 \<lparr>sa_family = AF_UNIX, sa_data = []\<rparr> [1, 2] 2 = (- 1, [])
   \<and> udp_listener_sendto 2 3 \<lparr>sa_family = AF_INET, sa_data = []\<rparr> [1, 2] 2 =
       (2, [sys_sendto 3 [1, 2] 2 \<lparr>sa_family = AF_INET, sa_data = []\<rparr> 16])
   \<and> udp_listener_sendto 2 3 \<lparr>sa_family = AF_INET6, sa_data = []\<rparr> [1, 2] 2 =
       (2, [sys_sendto 3 [1, 2] 2 \<lparr>sa_family = AF_INET6, sa_data = []\<rparr> 28])"
  using udp_sendto_family [of "\<lparr>sa_family = AF_UNIX, sa_data = []\<rparr>" 5 3 "[1, 2]" 2]
    udp_sendto_family [of "\<lparr>sa_family = AF_INET, sa_data = []\<rparr>" 2 3 "[1, 2]" 2]
    udp_sendto_family [of "\<lparr>sa_family = AF_INET6, sa_data = []\<rparr>" 2 3 "[1, 2]" 2]
  by (simp add: AF_UNIX_def AF_INET_def AF_INET6_def sizeof_sockaddr_in_def
      sizeof_sockaddr_in6_def)

subsection \<open>The write pacing queue and \<open>queue_write\<close>\<close>

text \<open>
  Claim C8, as amended.  For an endpoint that is alive: when it has no queue,
  \<open>queue_write\<close> returns false and changes nothing.  When it has a queue
  \<open>q\<close>: a push into a queue with room appends one entry stamped with the
  current time, a copy of the payload if the payload fits an entry, and an
  entry of length zero holding none of its bytes if it does not; a push into
  a full queue appends nothing; \<open>queue_write\<close> returns true, its result being
  the drain (hook, then one write per entry passed) of the queue after the
  push, which hands over entries of that queue only and leaves it empty.
  When every queue is empty, as the constructor builds it, the push finds
  room, and every queue is empty again after any run of registrations,
  queued writes and worker passes.

  The claim as stated fails: the counterexample pushes a payload one byte
  larger than an entry; an entry of length zero is queued and the drain
  issues a write of zero bytes for it.
\<close>

theorem queue_write_push_then_drain:
  fixes pf :: "'c platform" and s :: "'c tun_state"
  assumes "objs s this = Some ev"
  shows "(m_LossyWriteQueue ev = None \<longrightarrow> queue_write pf now this dat s = Inr (False, s))
    \<and> (\<forall>q. m_LossyWriteQueue ev = Some q \<longrightarrow>
         (length (m_Queue q) < MaxSize \<and> length dat \<le> EV_WRITE_BUF_SZ pf \<longrightarrow>
            Emplace pf now dat q =
              q\<lparr>m_Queue := m_Queue q @ [\<lparr>timestamp = now, bufsz = length dat, buf = dat\<rparr>]\<rparr>)
       \<and> (length (m_Queue q) < MaxSize \<and> EV_WRITE_BUF_SZ pf < length dat \<longrightarrow>
            Emplace pf now dat q =
              q\<lparr>m_Queue := m_Queue q @ [\<lparr>timestamp = now, bufsz = 0, buf = []\<rparr>]\<rparr>)
       \<and> (MaxSize \<le> length (m_Queue q) \<longrightarrow> Emplace pf now dat q = q)
       \<and> (queues_empty s \<longrightarrow> length (m_Queue q) < MaxSize)
       \<and> set (fst (Process pf now (Emplace pf now dat q))) \<subseteq> set (m_Queue (Emplace pf now dat q))
       \<and> (\<exists>s'. queue_write pf now this dat s = Inr (True, s')
            \<and> flush_write pf now this
                 (s\<lparr>objs := (objs s)(this \<mapsto>
                      ev\<lparr>m_LossyWriteQueue := Some (Emplace pf now dat q)\<rparr>)\<rparr>) = Inr s'
            \<and> trace s' = trace s
                 @ (if before_write (tio ev) then [hook_before_write this] else [])
                 @ write_events (tun_fd ev) (next_pkt s)
                     (fst (Process pf now (Emplace pf now dat q)))
            \<and> (\<exists>q'. objs s' this = Some (ev\<lparr>m_LossyWriteQueue := Some q'\<rparr>) \<and> m_Queue q' = [])))
    \<and> (\<forall>xs s'. queues_empty s \<and> run_ops pf xs s = Inr s' \<longrightarrow> queues_empty s')"
proof (intro conjI allI impI)
  assume "m_LossyWriteQueue ev = None"
  with assms show "queue_write pf now this dat s = Inr (False, s)"
    by (simp add: queue_write_def)
next
  fix q :: "'c CoDelQueue"
  assume "length (m_Queue q) < MaxSize \<and> length dat \<le> EV_WRITE_BUF_SZ pf"
  then show "Emplace pf now dat q =
      q\<lparr>m_Queue := m_Queue q @ [\<lparr>timestamp = now, bufsz = length dat, buf = dat\<rparr>]\<rparr>"
    by (simp add: Emplace_fits)
next
  fix q :: "'c CoDelQueue"
  assume "length (m_Queue q) < MaxSize \<and> EV_WRITE_BUF_SZ pf < length dat"
  then show "Emplace pf now dat q =
      q\<lparr>m_Queue := m_Queue q @ [\<lparr>timestamp = now, bufsz = 0, buf = []\<rparr>]\<rparr>"
    by (simp add: Emplace_oversize)
next
  fix q :: "'c CoDelQueue"
  assume "MaxSize \<le> length (m_Queue q)"
  then show "Emplace pf now dat q = q"
    by (rule Emplace_full)
next
  fix q :: "'c CoDelQueue"
  assume "m_LossyWriteQueue ev = Some q" and "queues_empty s"
  with assms have "m_Queue q = []"
    unfolding queues_empty_def by blast
  then show "length (m_Queue q) < MaxSize"
    by (simp add: MaxSize_def)
next
  fix q :: "'c CoDelQueue"
  show "set (fst (Process pf now (Emplace pf now dat q))) \<subseteq> set (m_Queue (Emplace pf now dat q))"
    by (rule Process_subset)
next
  fix q :: "'c CoDelQueue"
  assume q: "m_LossyWriteQueue ev = Some q"
  let ?q = "Emplace pf now dat q"
  let ?s' = "do_writes ev (fst (Process pf now ?q))
        ((if before_write (tio ev) then emit (hook_before_write this) s else s)
           \<lparr>objs := (objs s)(this \<mapsto> ev\<lparr>m_LossyWriteQueue := Some (snd (Process pf now ?q))\<rparr>)\<rparr>)"
  have 1: "queue_write pf now this dat s = Inr (True, ?s')"
    using assms q by (rule queue_write_eq)
  have 2: "flush_write pf now this
      (s\<lparr>objs := (objs s)(this \<mapsto> ev\<lparr>m_LossyWriteQueue := Some ?q\<rparr>)\<rparr>) = Inr ?s'"
    using 1 assms q by (simp add: queue_write_def split: sum.splits)
  have 3: "trace ?s' = trace s
      @ (if before_write (tio ev) then [hook_before_write this] else [])
      @ write_events (tun_fd ev) (next_pkt s) (fst (Process pf now ?q))"
    by (simp add: do_writes_trace)
  have 4: "objs ?s' this = Some (ev\<lparr>m_LossyWriteQueue := Some (snd (Process pf now ?q))\<rparr>)"
    by simp
  show "\<exists>s'. queue_write pf now this dat s = Inr (True, s')
      \<and> flush_write pf now this
           (s\<lparr>objs := (objs s)(this \<mapsto> ev\<lparr>m_LossyWriteQueue := Some ?q\<rparr>)\<rparr>) = Inr s'
      \<and> trace s' = trace s
           @ (if before_write (tio ev) then [hook_before_write this] else [])
           @ write_events (tun_fd ev) (next_pkt s) (fst (Process pf now ?q))
      \<and> (\<exists>q'. objs s' this = Some (ev\<lparr>m_LossyWriteQueue := Some q'\<rparr>) \<and> m_Queue q' = [])"
    using 1 2 3 4 Process_empties [of pf now ?q] by blast
next
  fix xs and s' :: "'c tun_state"
  assume "queues_empty s \<and> run_ops pf xs s = Inr s'"
  then show "queues_empty s'"
    using run_ops_queues_empty [of pf xs s s'] by blast
qed

theorem oversize_payload_zero_write_counterexample:
  "EV_WRITE_BUF_SZ ex_pf < length (replicate 2049 (0 :: byte_t))
   \<and> Emplace ex_pf 7 (replicate 2049 0) \<lparr>m_Queue = [], codel = ()\<rparr> =
       \<lparr>m_Queue = [\<lparr>timestamp = 7, bufsz = 0, buf = []\<rparr>], codel = ()\<rparr>
   \<and> queue_write ex_pf 7 4096 (replicate 2049 0) ex_s1 = Inr (True, ex_s2_oversize)
   \<and> new_events ex_s1 ex_s2_oversize = [hook_before_write 4096, WriteFile 5 [] 0 1]"
proof -
  have "EV_WRITE_BUF_SZ ex_pf < length (replicate 2049 (0 :: byte_t))"
    by (simp add: ex_pf_def)
  moreover have "Emplace ex_pf 7 (replicate 2049 0) \<lparr>m_Queue = [], codel = ()\<rparr> =
       \<lparr>m_Queue = [\<lparr>timestamp = 7, bufsz = 0, buf = []\<rparr>], codel = ()\<rparr>"
    by (simp add: Emplace_def MaxSize_def PutTime_def WriteBuffer_ctor_def ex_pf_def)
  moreover have "new_events ex_s1 ex_s2_oversize = [hook_before_write 4096, WriteFile 5 [] 0 1]"
    by (simp add: new_events_def ex_s1_def ex_s2_oversize_def)
  ultimately show ?thesis
    using ex_queue_write_oversize by (intro conjI)
qed

theorem queue_write_push_then_drain_witness:
  "Emplace ex_pf 7 [1, 2, 3] \<lparr>m_Queue = [], codel = ()\<rparr> =
      \<lparr>m_Queue = [\<lparr>timestamp = 7, bufsz = 3, buf = [1, 2, 3]\<rparr>], codel = ()\<rparr>
   \<and> Emplace ex_pf 7 (replicate 2049 0) \<lparr>m_Queue = [], codel = ()\<rparr> =
      \<lparr>m_Queue = [\<lparr>timestamp = 7, bufsz = 0, buf = []\<rparr>], codel = ()\<rparr>
   \<and> Emplace ex_pf 7 [1, 2, 3] \<lparr>m_Queue = replicate 128 \<lparr>timestamp = 0, bufsz = 0, buf = []\<rparr>,
        codel = ()\<rparr> =
      \<lparr>m_Queue = replicate 128 \<lparr>timestamp = 0, bufsz = 0, buf = []\<rparr>, codel = ()\<rparr>
   \<and> (\<exists>s'. queue_write ex_pf 7 4096 [1, 2, 3] ex_s1 = Inr (True, s')
         \<and> trace s' = trace ex_s1 @ [hook_before_write 4096, WriteFile 5 [1, 2, 3] 3 1])
   \<and> (\<exists>s'. queue_write ex_pf 7 4096 (replicate 2049 0) ex_s1 = Inr (True, s')
         \<and> trace s' = trace ex_s1 @ [hook_before_write 4096, WriteFile 5 [] 0 1])
   \<and> queue_write ex_pf 7 4096 [1, 2, 3]
        (ex_s1\<lparr>objs := [4096 \<mapsto> ex_ev\<lparr>m_LossyWriteQueue := None\<rparr>]\<rparr>) =
        Inr (False, ex_s1\<lparr>objs := [4096 \<mapsto> ex_ev\<lparr>m_LossyWriteQueue := None\<rparr>]\<rparr>)
   \<and> queues_empty ex_s2"
proof -
  let ?q = "\<lparr>m_Queue = [], codel = ()\<rparr> :: unit CoDelQueue"
  let ?full = "\<lparr>m_Queue = replicate 128 \<lparr>timestamp = 0, bufsz = 0, buf = []\<rparr>,
        codel = ()\<rparr> :: unit CoDelQueue"
  let ?big = "replicate 2049 (0 :: byte_t)"
  let ?e3 = "\<lparr>timestamp = 7, bufsz = 3, buf = [1, 2, 3]\<rparr>"
  let ?e0 = "\<lparr>timestamp = 7, bufsz = 0, buf = []\<rparr>"
  have q: "m_LossyWriteQueue ex_ev = Some ?q"
    by (simp add: ex_ev_def)
  have fits: "length (m_Queue ?q) < MaxSize \<and> length [1, 2, 3 :: byte_t] \<le> EV_WRITE_BUF_SZ ex_pf"
    by (simp add: ex_pf_def MaxSize_def)
  have over: "length (m_Queue ?q) < MaxSize \<and> EV_WRITE_BUF_SZ ex_pf < length ?big"
    by (simp add: ex_pf_def MaxSize_def)
  have full: "MaxSize \<le> length (m_Queue ?full)"
    by (simp add: MaxSize_def)
  have nq: "m_LossyWriteQueue (ex_ev\<lparr>m_LossyWriteQueue := None\<rparr>) = None"
    by simp
  have no: "objs (ex_s1\<lparr>objs := [4096 \<mapsto> ex_ev\<lparr>m_LossyWriteQueue := None\<rparr>]\<rparr>) 4096 =
      Some (ex_ev\<lparr>m_LossyWriteQueue := None\<rparr>)"
    by simp
  have run: "queues_empty ex_s1 \<and> run_ops ex_pf [op_queue_write 7 4096 [1, 2, 3]] ex_s1 = Inr ex_s2"
    by (simp add: ex_queues_empty ex_queue_write)
  note small = queue_write_push_then_drain [OF ex_objs(2), of ex_pf 7 "[1, 2, 3]"]
  note large = queue_write_push_then_drain [OF ex_objs(2), of ex_pf 7 ?big]
  note null = queue_write_push_then_drain [OF no, of ex_pf 7 "[1, 2, 3]"]
  from small q fits have 1: "Emplace ex_pf 7 [1, 2, 3] ?q =
      ?q\<lparr>m_Queue := m_Queue ?q @ [\<lparr>timestamp = 7, bufsz = length [1, 2, 3 :: byte_t], buf = [1, 2, 3]\<rparr>]\<rparr>"
    by blast
  from large q over have 2: "Emplace ex_pf 7 ?big ?q = ?q\<lparr>m_Queue := m_Queue ?q @ [?e0]\<rparr>"
    by blast
  have 6: "Emplace ex_pf 7 [1, 2, 3] ?full = ?full"
    using full by (rule Emplace_full)
  from small q have 3: "\<exists>s'. queue_write ex_pf 7 4096 [1, 2, 3] ex_s1 = Inr (True, s')
      \<and> trace s' = trace ex_s1
           @ (if before_write (tio ex_ev) then [hook_before_write 4096] else [])
           @ write_events (tun_fd ex_ev) (next_pkt ex_s1)
               (fst (Process ex_pf 7 (Emplace ex_pf 7 [1, 2, 3] ?q)))"
    by blast
  from large q have 4: "\<exists>s'. queue_write ex_pf 7 4096 ?big ex_s1 = Inr (True, s')
      \<and> trace s' = trace ex_s1
           @ (if before_write (tio ex_ev) then [hook_before_write 4096] else [])
           @ write_events (tun_fd ex_ev) (next_pkt ex_s1)
               (fst (Process ex_pf 7 (Emplace ex_pf 7 ?big ?q)))"
    by blast
  from null nq have 5: "queue_write ex_pf 7 4096 [1, 2, 3]
        (ex_s1\<lparr>objs := [4096 \<mapsto> ex_ev\<lparr>m_LossyWriteQueue := None\<rparr>]\<rparr>) =
        Inr (False, ex_s1\<lparr>objs := [4096 \<mapsto> ex_ev\<lparr>m_LossyWriteQueue := None\<rparr>]\<rparr>)"
    by blast
  from small run have 7: "queues_empty ex_s2"
    by blast
  have e: "before_write (tio ex_ev)" "tun_fd ex_ev = 5" "next_pkt ex_s1 = 1"
    by (simp_all add: ex_ev_def ex_cfg_def ex_s1_def)
  from 1 have e1: "Emplace ex_pf 7 [1, 2, 3] ?q = \<lparr>m_Queue = [?e3], codel = ()\<rparr>"
    by simp
  from 2 have e2: "Emplace ex_pf 7 ?big ?q = \<lparr>m_Queue = [?e0], codel = ()\<rparr>"
    by simp
  from 3 have e3: "\<exists>s'. queue_write ex_pf 7 4096 [1, 2, 3] ex_s1 = Inr (True, s')
         \<and> trace s' = trace ex_s1 @ [hook_before_write 4096, WriteFile 5 [1, 2, 3] 3 1]"
    unfolding e1 ex_Process by (simp add: e)
  from 4 have e4: "\<exists>s'. queue_write ex_pf 7 4096 ?big ex_s1 = Inr (True, s')
         \<and> trace s' = trace ex_s1 @ [hook_before_write 4096, WriteFile 5 [] 0 1]"
    unfolding e2 ex_Process by (simp add: e)
  from e1 e2 6 e3 e4 5 7 show ?thesis
    by (intro conjI)
qed

subsection \<open>Configuration of the device\<close>

text \<open>
  Claim C9.  \<open>win32_tun_io::setup\<close> calls start, set-ip and up in this order;
  a step answering -1 ends it with failure after that step, the later steps
  are not called; it never calls \<open>CancelIo\<close> or \<open>tuntap_destroy\<close>; and it
  returns success exactly when none of the three steps answered -1 and the
  descriptor is not \<open>INVALID_HANDLE_VALUE\<close>.
\<close>

theorem setup_fail_fast:
  "(start_res drv = - 1 \<longrightarrow> win32_tun_io_setup drv cfg = (False, [tuntap_start]))
   \<and> (start_res drv \<noteq> - 1 \<and> set_ip_res drv = - 1 \<longrightarrow>
        win32_tun_io_setup drv cfg =
          (False, [tuntap_start, tuntap_set_ip (ifaddr cfg) (ifaddr cfg) (netmask cfg)]))
   \<and> (start_res drv \<noteq> - 1 \<and> set_ip_res drv \<noteq> - 1 \<and> up_res drv = - 1 \<longrightarrow>
        win32_tun_io_setup drv cfg =
          (False, [tuntap_start, tuntap_set_ip (ifaddr cfg) (ifaddr cfg) (netmask cfg),
                   tuntap_up]))
   \<and> (fst (win32_tun_io_setup drv cfg) \<longleftrightarrow>
        start_res drv \<noteq> - 1 \<and> set_ip_res drv \<noteq> - 1 \<and> up_res drv \<noteq> - 1
        \<and> tun_fd_res drv \<noteq> INVALID_HANDLE_VALUE)
   \<and> (fst (win32_tun_io_setup drv cfg) \<longrightarrow>
        snd (win32_tun_io_setup drv cfg) =
          [tuntap_start, tuntap_set_ip (ifaddr cfg) (ifaddr cfg) (netmask cfg), tuntap_up])
   \<and> (\<exists>k. 0 < k \<and> snd (win32_tun_io_setup drv cfg) =
        take k [tuntap_start, tuntap_set_ip (ifaddr cfg) (ifaddr cfg) (netmask cfg), tuntap_up])
   \<and> tuntap_destroy \<notin> set (snd (win32_tun_io_setup drv cfg))
   \<and> (\<forall>h. CancelIo h \<notin> set (snd (win32_tun_io_setup drv cfg)))"
proof -
  let ?all = "[tuntap_start, tuntap_set_ip (ifaddr cfg) (ifaddr cfg) (netmask cfg), tuntap_up]"
  have pre: "\<exists>k. 0 < k \<and> snd (win32_tun_io_setup drv cfg) = take k ?all"
  proof -
    have "snd (win32_tun_io_setup drv cfg) = take 1 ?all
        \<or> snd (win32_tun_io_setup drv cfg) = take 2 ?all
        \<or> snd (win32_tun_io_setup drv cfg) = take 3 ?all"
      by (simp add: win32_tun_io_setup_def)
    then show ?thesis by (metis zero_less_numeral zero_less_one)
  qed
  show ?thesis
    using pre by (simp add: win32_tun_io_setup_def)
qed

theorem setup_fail_fast_witness:
  "win32_tun_io_setup \<lparr>start_res = - 1, set_ip_res = 0, up_res = 0, tun_fd_res = 5\<rparr> ex_cfg =
     (False, [tuntap_start])
   \<and> win32_tun_io_setup \<lparr>start_res = 0, set_ip_res = - 1, up_res = 0, tun_fd_res = 5\<rparr> ex_cfg =
     (False, [tuntap_start, tuntap_set_ip ''10.0.0.1'' ''10.0.0.1'' 24])
   \<and> win32_tun_io_setup \<lparr>start_res = 0, set_ip_res = 0, up_res = - 1, tun_fd_res = 5\<rparr> ex_cfg =
     (False, [tuntap_start, tuntap_set_ip ''10.0.0.1'' ''10.0.0.1'' 24, tuntap_up])
   \<and> snd (win32_tun_io_setup \<lparr>start_res = 0, set_ip_res = 0, up_res = 0, tun_fd_res = 5\<rparr> ex_cfg) =
       [tuntap_start, tuntap_set_ip ''10.0.0.1'' ''10.0.0.1'' 24, tuntap_up]
   \<and> fst (win32_tun_io_setup \<lparr>start_res = 0, set_ip_res = 0, up_res = 0, tun_fd_res = 5\<rparr> ex_cfg)"
proof -
  let ?ok = "\<lparr>start_res = 0, set_ip_res = 0, up_res = 0, tun_fd_res = 5\<rparr>"
  have ok: "start_res ?ok \<noteq> - 1 \<and> set_ip_res ?ok \<noteq> - 1 \<and> up_res ?ok \<noteq> - 1
      \<and> tun_fd_res ?ok \<noteq> INVALID_HANDLE_VALUE"
    by (simp add: INVALID_HANDLE_VALUE_def)
  from setup_fail_fast [of ?ok ex_cfg] ok
  have 4: "fst (win32_tun_io_setup ?ok ex_cfg)"
    by blast
  with setup_fail_fast [of ?ok ex_cfg]
  have 5: "snd (win32_tun_io_setup ?ok ex_cfg) =
      [tuntap_start, tuntap_set_ip (ifaddr ex_cfg) (ifaddr ex_cfg) (netmask ex_cfg), tuntap_up]"
    by blast
  from setup_fail_fast [of "\<lparr>start_res = - 1, set_ip_res = 0, up_res = 0, tun_fd_res = 5\<rparr>" ex_cfg]
    setup_fail_fast [of "\<lparr>start_res = 0, set_ip_res = - 1, up_res = 0, tun_fd_res = 5\<rparr>" ex_cfg]
    setup_fail_fast [of "\<lparr>start_res = 0, set_ip_res = 0, up_res = - 1, tun_fd_res = 5\<rparr>" ex_cfg]
    4 5
  show ?thesis
    by (simp add: ex_cfg_def)
qed

subsection \<open>No virtual interface on the readiness backend\<close>

text \<open>
  Claim C10.  \<open>llarp_win32_loop::create_tun\<close> returns the null pointer for
  every argument.  The other factories build a TCP acceptor (\<open>bind_tcp\<close>), a
  UDP listener (\<open>create_udp\<close>) and nothing else, and \<open>tcp_connect\<close> and
  \<open>udp_listen\<close> leave a registry that holds no endpoint for a virtual
  interface without one.
\<close>

theorem create_tun_nullptr:
  "create_tun tun = None
   \<and> (\<forall>e. fst (bind_tcp os a) = Some e \<longrightarrow> ev_kind_of e = tcp_serv_kind)
   \<and> (\<forall>e. fst (create_udp os l a) = Some e \<longrightarrow> ev_kind_of e = udp_listener_kind)
   \<and> (\<forall>ok loop' evs. tcp_connect os tcp a loop = Inr (ok, loop', evs) \<longrightarrow>
         list_all no_tun (handlers loop) \<longrightarrow> list_all no_tun (handlers loop'))
   \<and> (\<forall>ok l' loop' evs. udp_listen os l a loop = (ok, l', loop', evs) \<longrightarrow>
         list_all no_tun (handlers loop) \<longrightarrow> list_all no_tun (handlers loop'))"
proof (intro conjI allI impI)
  show "create_tun tun = None"
    by (simp add: create_tun_def)
next
  fix e
  assume "fst (bind_tcp os a) = Some e"
  then show "ev_kind_of e = tcp_serv_kind"
    by (auto simp: bind_tcp_def split: if_splits)
next
  fix e
  assume "fst (create_udp os l a) = Some e"
  then show "ev_kind_of e = udp_listener_kind"
    by (auto simp: create_udp_def split: prod.splits if_splits)
next
  fix ok loop' evs
  assume "tcp_connect os tcp a loop = Inr (ok, loop', evs)" and "list_all no_tun (handlers loop)"
  then show "list_all no_tun (handlers loop')"
    by (auto simp: tcp_connect_def llarp_win32_loop_add_ev_def no_tun_def
        split: if_splits prod.splits)
next
  fix ok l' loop' evs
  assume u: "udp_listen os l a loop = (ok, l', loop', evs)" and n: "list_all no_tun (handlers loop)"
  show "list_all no_tun (handlers loop')"
  proof (cases "create_udp os l a")
    case (fields eo l1 evs0)
    show ?thesis
    proof (cases eo)
      case None
      with fields u n show ?thesis by (simp add: udp_listen_def)
    next
      case (Some e)
      with fields have "fst (create_udp os l a) = Some e" by simp
      then have "ev_kind_of e = udp_listener_kind"
        by (auto simp: create_udp_def split: prod.splits if_splits)
      then have "no_tun e" by (simp add: no_tun_def)
      with Some fields u n show ?thesis
        by (auto simp: udp_listen_def llarp_win32_loop_add_ev_def split: if_splits)
    qed
  qed
qed

theorem create_tun_nullptr_witness:
  "create_tun ex_cfg = None
   \<and> fst (bind_tcp ex_refused ex_remote) = Some (Tcp_serv 7)
   \<and> ev_kind_of (Tcp_serv 7) = tcp_serv_kind
   \<and> fst (create_udp ex_refused \<lparr>impl = None, fd = 0\<rparr> ex_remote) = Some (Udp_listener 7)
   \<and> ev_kind_of (Udp_listener 7) = udp_listener_kind
   \<and> list_all no_tun [Tcp_conn (tcp_conn_ctor 7 ex_remote \<lparr>error = True\<rparr>)]
   \<and> list_all no_tun [Udp_listener 7]"
proof -
  note t = create_tun_nullptr [of ex_cfg ex_refused ex_remote "\<lparr>impl = None, fd = 0\<rparr>"
      "\<lparr>error = True\<rparr>" "\<lparr>handlers = []\<rparr>"]
  have b: "fst (bind_tcp ex_refused ex_remote) = Some (Tcp_serv 7)"
    by (simp add: bind_tcp_def ex_refused_def)
  have u: "fst (create_udp ex_refused \<lparr>impl = None, fd = 0\<rparr> ex_remote) = Some (Udp_listener 7)"
    by (simp add: create_udp_def udp_bind_def udp_slen_def ex_refused_def ex_remote_def
        AF_INET_def AF_INET6_def)
  have c: "tcp_connect ex_refused \<lparr>error = True\<rparr> ex_remote \<lparr>handlers = []\<rparr> =
       Inr (True,
            \<lparr>handlers = [Tcp_conn (tcp_conn_ctor 7 ex_remote \<lparr>error = True\<rparr>)]\<rparr>,
            [sys (sys_usocket AF_INET), sys (sys_upoll_ctl_add 7 True),
             sys (sys_connect 7 ex_remote 16), hook_error 7])"
    by (simp add: ex_refused_def WSAEINPROGRESS_def tcp_connect_def llarp_win32_loop_add_ev_def
      tcp_conn_connect_def tcp_conn_ctor_def ex_remote_def connect_slen_def
      AF_INET_def AF_INET6_def AF_UNIX_def sizeof_sockaddr_in_def)
  have l: "udp_listen ex_refused \<lparr>impl = None, fd = 0\<rparr> ex_remote \<lparr>handlers = []\<rparr> =
       (True, \<lparr>impl = Some 7, fd = 7\<rparr>, \<lparr>handlers = [Udp_listener 7]\<rparr>,
        [sys_usocket_dgram AF_INET, sys_bind 7 ex_remote 16, sys (sys_upoll_ctl_add 7 False)])"
    by (simp add: udp_listen_def create_udp_def udp_bind_def udp_slen_def ex_refused_def
        ex_remote_def llarp_win32_loop_add_ev_def AF_INET_def AF_INET6_def sizeof_sockaddr_in_def)
  have e: "list_all no_tun (handlers \<lparr>handlers = []\<rparr>)"
    by simp
  from t have 1: "create_tun ex_cfg = None" by blast
  from t b have 2: "ev_kind_of (Tcp_serv 7) = tcp_serv_kind" by blast
  from t u have 3: "ev_kind_of (Udp_listener 7) = udp_listener_kind" by blast
  from t c e have "list_all no_tun
      (handlers \<lparr>handlers = [Tcp_conn (tcp_conn_ctor 7 ex_remote \<lparr>error = True\<rparr>)]\<rparr>)"
    by blast
  then have 4: "list_all no_tun [Tcp_conn (tcp_conn_ctor 7 ex_remote \<lparr>error = True\<rparr>)]"
    by simp
  from t l e have "list_all no_tun (handlers \<lparr>handlers = [Udp_listener 7]\<rparr>)"
    by blast
  then have 5: "list_all no_tun [Udp_listener 7]"
    by simp
  from 1 b 2 u 3 4 5 show ?thesis
    by (intro conjI)
qed

end
